theory Spec2Isabelle
  imports Complex_Main "HOL-Library.Log_Nat"
begin

section \<open>JavaScript numbers\<close>

text \<open>
  A JavaScript number is an IEEE 754 binary64 value.  A finite nonzero value is carried by
  the rational it denotes; the two zeros, the two infinities and NaN are separate
  constructors (\<open>Fin 0\<close> is \<open>+0\<close>).  Every arithmetic operator computes the exact
  rational result and rounds it to the nearest binary64 value, ties to even.
\<close>

datatype jsnum = Fin rat | NegZero | PInf | NInf | NaN

definition pow2 :: "int \<Rightarrow> rat" where
  "pow2 e = 2 powi e"

text \<open>\<open>expo x\<close> is the binary exponent of a positive rational: \<open>pow2 (expo x) \<le> x < pow2 (expo x + 1)\<close>.\<close>

definition expo :: "rat \<Rightarrow> int" where
  "expo x = (let d = bitlen (fst (quotient_of x)) - bitlen (snd (quotient_of x))
             in if pow2 d \<le> x then d else d - 1)"

text \<open>Round to the nearest integer, a tie going to the even neighbour.\<close>

definition rne :: "rat \<Rightarrow> int" where
  "rne y = (let f = \<lfloor>y\<rfloor>; d = y - of_int f
            in if d < 1 / 2 then f else if 1 / 2 < d then f + 1
               else if even f then f else f + 1)"

text \<open>
  The spacing of binary64 values around a magnitude \<open>x \<ge> 0\<close>: 53 significant bits,
  and the fixed spacing \<open>pow2 (-1074)\<close> of the subnormal range below \<open>pow2 (-1022)\<close>
  (where the exponent is smaller than \<open>-1022\<close>).
\<close>

definition quantum :: "rat \<Rightarrow> rat" where
  "quantum x = pow2 (max (expo x) (- 1022) - 52)"

definition round_mag :: "rat \<Rightarrow> rat" where
  "round_mag x = of_int (rne (x / quantum x)) * quantum x"

text \<open>
  The rounded magnitude overflows to an infinity when it reaches \<open>pow2 1024\<close>, that is
  when its exponent is at least \<open>1024\<close>.
\<close>

definition to_double :: "rat \<Rightarrow> jsnum" where
  "to_double x =
     (let m = round_mag \<bar>x\<bar>
      in if 1024 \<le> expo m then (if x < 0 then NInf else PInf)
         else if m = 0 then (if x < 0 then NegZero else Fin 0)
         else Fin (if x < 0 then - m else m))"

fun is_nan :: "jsnum \<Rightarrow> bool" where
  "is_nan NaN = True"
| "is_nan _ = False"

fun is_inf :: "jsnum \<Rightarrow> bool" where
  "is_inf PInf = True"
| "is_inf NInf = True"
| "is_inf _ = False"

fun is_zero :: "jsnum \<Rightarrow> bool" where
  "is_zero (Fin q) = (q = 0)"
| "is_zero NegZero = True"
| "is_zero _ = False"

fun is_neg :: "jsnum \<Rightarrow> bool" where
  "is_neg (Fin q) = (q < 0)"
| "is_neg NegZero = True"
| "is_neg NInf = True"
| "is_neg _ = False"

fun value_of :: "jsnum \<Rightarrow> rat" where
  "value_of (Fin q) = q"
| "value_of _ = 0"

definition zero_of :: "bool \<Rightarrow> jsnum" where
  "zero_of s = (if s then NegZero else Fin 0)"

definition inf_of :: "bool \<Rightarrow> jsnum" where
  "inf_of s = (if s then NInf else PInf)"

fun js_neg :: "jsnum \<Rightarrow> jsnum" where
  "js_neg (Fin q) = (if q = 0 then NegZero else Fin (- q))"
| "js_neg NegZero = Fin 0"
| "js_neg PInf = NInf"
| "js_neg NInf = PInf"
| "js_neg NaN = NaN"

definition js_add :: "jsnum \<Rightarrow> jsnum \<Rightarrow> jsnum" where
  "js_add a b =
     (if is_nan a \<or> is_nan b then NaN
      else if is_inf a then (if is_inf b \<and> a \<noteq> b then NaN else a)
      else if is_inf b then b
      else if is_zero a \<and> is_zero b then (if a = NegZero \<and> b = NegZero then NegZero else Fin 0)
      else if value_of a + value_of b = 0 then Fin 0
      else to_double (value_of a + value_of b))"

definition js_sub :: "jsnum \<Rightarrow> jsnum \<Rightarrow> jsnum" where
  "js_sub a b = js_add a (js_neg b)"

definition js_mul :: "jsnum \<Rightarrow> jsnum \<Rightarrow> jsnum" where
  "js_mul a b =
     (if is_nan a \<or> is_nan b then NaN
      else if is_inf a \<or> is_inf b
        then (if is_zero a \<or> is_zero b then NaN else inf_of (is_neg a \<noteq> is_neg b))
      else if is_zero a \<or> is_zero b then zero_of (is_neg a \<noteq> is_neg b)
      else to_double (value_of a * value_of b))"

definition js_div :: "jsnum \<Rightarrow> jsnum \<Rightarrow> jsnum" where
  "js_div a b =
     (if is_nan a \<or> is_nan b then NaN
      else if is_inf a then (if is_inf b then NaN else inf_of (is_neg a \<noteq> is_neg b))
      else if is_inf b then zero_of (is_neg a \<noteq> is_neg b)
      else if is_zero b then (if is_zero a then NaN else inf_of (is_neg a \<noteq> is_neg b))
      else if is_zero a then zero_of (is_neg a \<noteq> is_neg b)
      else to_double (value_of a / value_of b))"

text \<open>The order of the extended number line; both zeros sit at the same place.\<close>

fun ext :: "jsnum \<Rightarrow> int \<times> rat" where
  "ext (Fin q) = (0, q)"
| "ext NegZero = (0, 0)"
| "ext PInf = (1, 0)"
| "ext NInf = (- 1, 0)"
| "ext NaN = (2, 0)"

definition js_lt :: "jsnum \<Rightarrow> jsnum \<Rightarrow> bool" where
  "js_lt a b = (\<not> is_nan a \<and> \<not> is_nan b \<and>
     (fst (ext a) < fst (ext b) \<or> fst (ext a) = fst (ext b) \<and> snd (ext a) < snd (ext b)))"

definition js_gt :: "jsnum \<Rightarrow> jsnum \<Rightarrow> bool" where
  "js_gt a b = js_lt b a"

definition js_eq :: "jsnum \<Rightarrow> jsnum \<Rightarrow> bool" where
  "js_eq a b = (\<not> is_nan a \<and> \<not> is_nan b \<and> ext a = ext b)"

text \<open>\<open>Math.min\<close>, \<open>Math.max\<close>: NaN if any argument is NaN; \<open>-0\<close> counts as smaller than \<open>+0\<close>.\<close>

definition math_min2 :: "jsnum \<Rightarrow> jsnum \<Rightarrow> jsnum" where
  "math_min2 a b =
     (if is_nan a \<or> is_nan b then NaN
      else if js_lt a b then a else if js_lt b a then b
      else if a = NegZero then a else b)"

definition math_max2 :: "jsnum \<Rightarrow> jsnum \<Rightarrow> jsnum" where
  "math_max2 a b =
     (if is_nan a \<or> is_nan b then NaN
      else if js_lt a b then b else if js_lt b a then a
      else if a = NegZero then b else a)"

definition math_min :: "jsnum \<Rightarrow> jsnum \<Rightarrow> jsnum \<Rightarrow> jsnum" where
  "math_min a b c = math_min2 (math_min2 a b) c"

definition math_max :: "jsnum \<Rightarrow> jsnum \<Rightarrow> jsnum \<Rightarrow> jsnum" where
  "math_max a b c = math_max2 (math_max2 a b) c"

text \<open>
  \<open>Math.round\<close>: the integer nearest to the argument, a tie going up; an argument in
  \<open>[-0.5, 0)\<close> gives \<open>-0\<close>; zeros, infinities and NaN are returned as they are.
\<close>

fun math_round :: "jsnum \<Rightarrow> jsnum" where
  "math_round (Fin q) = (if q < 0 \<and> - (1 / 2) \<le> q then NegZero else Fin (of_int \<lfloor>q + 1 / 2\<rfloor>))"
| "math_round n = n"

section \<open>rgb2hsv\<close>

text \<open>
  \<open>var H\<close> is declared without a value; if none of the three channel tests succeeds it
  stays \<open>undefined\<close>, which the comparisons and the product read as NaN.
\<close>

definition rgb2hsv :: "jsnum \<Rightarrow> jsnum \<Rightarrow> jsnum \<Rightarrow> jsnum list" where
  "rgb2hsv r g b =
     (let var_R = js_div r (Fin 255);
          var_G = js_div g (Fin 255);
          var_B = js_div b (Fin 255);
          var_Min = math_min var_R var_G var_B;
          var_Max = math_max var_R var_G var_B;
          del_Max = js_sub var_Max var_Min;
          V = var_Max
      in if js_eq del_Max (Fin 0)
         then [math_round (js_mul (Fin 0) (Fin 255)),
               math_round (js_mul (Fin 0) (Fin 255)),
               math_round (js_mul V (Fin 255))]
         else
           (let S = js_div del_Max var_Max;
                del_R = js_div (js_add (js_div (js_sub var_Max var_R) (Fin 6))
                                       (js_div del_Max (Fin 2))) del_Max;
                del_G = js_div (js_add (js_div (js_sub var_Max var_G) (Fin 6))
                                       (js_div del_Max (Fin 2))) del_Max;
                del_B = js_div (js_add (js_div (js_sub var_Max var_B) (Fin 6))
                                       (js_div del_Max (Fin 2))) del_Max;
                H0 = (if js_eq var_R var_Max then js_sub del_B del_G
                      else if js_eq var_G var_Max
                        then js_sub (js_add (js_div (Fin 1) (Fin 3)) del_R) del_B
                      else if js_eq var_B var_Max
                        then js_sub (js_add (js_div (Fin 2) (Fin 3)) del_G) del_R
                      else NaN);
                H1 = (if js_lt H0 (Fin 0) then js_add H0 (Fin 1) else H0);
                H2 = (if js_gt H1 (Fin 1) then js_sub H1 (Fin 1) else H1)
            in [math_round (js_mul H2 (Fin 255)),
                math_round (js_mul S (Fin 255)),
                math_round (js_mul V (Fin 255))]))"

text \<open>
  The quantities of the conversion under the names the description of the algorithm
  gives them: the normalized channel \<open>x / 255\<close>, the largest and smallest normalized
  channel, their difference, the per-channel delta, the hue before the wrap, the wrap of
  the hue into \<open>[0, 1]\<close> and the final scaling.  They are used to state what
  \<open>rgb2hsv\<close> computes; \<open>rgb2hsv\<close> itself is defined above without them.
\<close>

definition normalized :: "jsnum \<Rightarrow> jsnum" where
  "normalized x = js_div x (Fin 255)"

definition max_c :: "jsnum \<Rightarrow> jsnum \<Rightarrow> jsnum \<Rightarrow> jsnum" where
  "max_c r g b = math_max (normalized r) (normalized g) (normalized b)"

definition min_c :: "jsnum \<Rightarrow> jsnum \<Rightarrow> jsnum \<Rightarrow> jsnum" where
  "min_c r g b = math_min (normalized r) (normalized g) (normalized b)"

definition delta :: "jsnum \<Rightarrow> jsnum \<Rightarrow> jsnum \<Rightarrow> jsnum" where
  "delta r g b = js_sub (max_c r g b) (min_c r g b)"

definition channel_delta :: "jsnum \<Rightarrow> jsnum \<Rightarrow> jsnum \<Rightarrow> jsnum \<Rightarrow> jsnum" where
  "channel_delta r g b x =
     js_div (js_add (js_div (js_sub (max_c r g b) (normalized x)) (Fin 6))
                    (js_div (delta r g b) (Fin 2)))
            (delta r g b)"

text \<open>The hue before the wrap: the value the first successful channel test assigns.\<close>

definition raw_hue :: "jsnum \<Rightarrow> jsnum \<Rightarrow> jsnum \<Rightarrow> jsnum" where
  "raw_hue r g b =
     (if js_eq (normalized r) (max_c r g b)
        then js_sub (channel_delta r g b b) (channel_delta r g b g)
      else if js_eq (normalized g) (max_c r g b)
        then js_sub (js_add (js_div (Fin 1) (Fin 3)) (channel_delta r g b r)) (channel_delta r g b b)
      else if js_eq (normalized b) (max_c r g b)
        then js_sub (js_add (js_div (Fin 2) (Fin 3)) (channel_delta r g b g)) (channel_delta r g b r)
      else NaN)"

definition wrap_hue :: "jsnum \<Rightarrow> jsnum" where
  "wrap_hue H =
     (let H1 = (if js_lt H (Fin 0) then js_add H (Fin 1) else H)
      in if js_gt H1 (Fin 1) then js_sub H1 (Fin 1) else H1)"

definition scaled :: "jsnum \<Rightarrow> jsnum" where
  "scaled x = math_round (js_mul x (Fin 255))"

section \<open>Values, color objects and the sketch instance\<close>

text \<open>
  The values a sketch can pass around.  A color object is what \<open>color()\<close> builds:
  \<open>{isColor, hsba, rgba, colorString}\<close>, where \<open>hsba\<close> may be absent.
\<close>

datatype jsval = Undefined | Null | Bool bool | Num jsnum | Str string | Arr "jsval list"
  | Obj color_value
and color_value =
  Color (isColor: bool) (hsba: "jsval list option") (rgba: "jsnum list") (colorString: string)

datatype error = TypeError

datatype colormode = RGB | HSB

text \<open>
  The fields of \<open>this\<close> that the functions read.  \<open>getNormalizedColor\<close> and
  \<open>getColorString\<close> are defined elsewhere in the library and are parameters here;
  \<open>getNormalizedColor\<close> returns an array of numbers.
\<close>

record p5 =
  colorMode :: colormode
  maxRGB :: "jsval list"
  maxHSB :: "jsval list"
  getNormalizedColor :: "jsval list \<Rightarrow> jsnum list"
  getColorString :: "jsnum list \<Rightarrow> string"

text \<open>Reading an array element; past the end the read gives \<open>undefined\<close>.\<close>

definition arr_get :: "jsval list \<Rightarrow> nat \<Rightarrow> jsval" where
  "arr_get xs i = (if i < length xs then xs ! i else Undefined)"

definition num_get :: "jsnum list \<Rightarrow> nat \<Rightarrow> jsval" where
  "num_get xs i = (if i < length xs then Num (xs ! i) else Undefined)"

text \<open>An element of \<open>rgba\<close> used as an operand: \<open>undefined\<close> is read as NaN.\<close>

definition chan :: "jsnum list \<Rightarrow> nat \<Rightarrow> jsnum" where
  "chan xs i = (if i < length xs then xs ! i else NaN)"

fun is_number :: "jsval \<Rightarrow> bool" where
  "is_number (Num n) = True"
| "is_number _ = False"

text \<open>\<open>typeof v === 'object'\<close>\<close>

fun is_object :: "jsval \<Rightarrow> bool" where
  "is_object Null = True"
| "is_object (Arr xs) = True"
| "is_object (Obj c) = True"
| "is_object _ = False"

section \<open>color\<close>

text \<open>The local variables \<open>r, g, b, a\<close> of \<open>color\<close>, as the array \<open>[r, g, b, a]\<close>.\<close>

definition color_components :: "p5 \<Rightarrow> jsval list \<Rightarrow> jsval list" where
  "color_components p args =
     (let isRGB = (colorMode p = RGB);
          maxArr = (if isRGB then maxRGB p else maxHSB p)
      in if 3 \<le> length args
         then [arr_get args 0, arr_get args 1, arr_get args 2,
               if is_number (arr_get args 3) then arr_get args 3 else arr_get maxArr 3]
         else (if isRGB then [arr_get args 0, arr_get args 0, arr_get args 0]
               else [arr_get args 0, Num (Fin 0), arr_get args 0])
              @ [if is_number (arr_get args 1) then arr_get args 1 else arr_get maxArr 3])"

definition color :: "p5 \<Rightarrow> jsval list \<Rightarrow> color_value" where
  "color p args =
     (let isRGB = (colorMode p = RGB);
          rgba1 = getNormalizedColor p (color_components p args)
      in Color True
           (if \<not> isRGB then Some (color_components p args) else None)
           rgba1
           (getColorString p rgba1))"

section \<open>Accessors\<close>

text \<open>
  Every accessor starts with \<open>if (!c.isColor) { c = this.color(c); }\<close>.  Reading a property
  of \<open>undefined\<close> or \<open>null\<close> throws; on any other value that is not a color object the
  property is \<open>undefined\<close> and a fresh color is built from the value.
\<close>

fun as_color :: "p5 \<Rightarrow> jsval \<Rightarrow> error + color_value" where
  "as_color p Undefined = Inl TypeError"
| "as_color p Null = Inl TypeError"
| "as_color p (Obj c) = Inr (if isColor c then c else color p [Obj c])"
| "as_color p v = Inr (color p [v])"

text \<open>Whether the accessor works on the caller's object (and so may write to it).\<close>

fun is_color :: "jsval \<Rightarrow> bool" where
  "is_color (Obj c) = isColor c"
| "is_color _ = False"

text \<open>
  An accessor returns the value read, the caller's argument as it is after the call, and
  the number of times \<open>rgb2hsv\<close> was called.
\<close>

type_synonym outcome = "jsval \<times> jsval \<times> nat"

definition alpha :: "p5 \<Rightarrow> jsval \<Rightarrow> error + outcome" where
  "alpha p c =
     (case as_color p c of
        Inl e \<Rightarrow> Inl e
      | Inr c1 \<Rightarrow> Inr (num_get (rgba c1) 3, c, 0))"

definition blue :: "p5 \<Rightarrow> jsval \<Rightarrow> error + outcome" where
  "blue p c =
     (case as_color p c of
        Inl e \<Rightarrow> Inl e
      | Inr c1 \<Rightarrow> Inr (num_get (rgba c1) 2, c, 0))"

definition green :: "p5 \<Rightarrow> jsval \<Rightarrow> error + outcome" where
  "green p c =
     (case as_color p c of
        Inl e \<Rightarrow> Inl e
      | Inr c1 \<Rightarrow> Inr (num_get (rgba c1) 1, c, 0))"

definition red :: "p5 \<Rightarrow> jsval \<Rightarrow> error + outcome" where
  "red p c =
     (case as_color p c of
        Inl e \<Rightarrow> Inl e
      | Inr c1 \<Rightarrow> Inr (num_get (rgba c1) 0, c, 0))"

text \<open>
  The three accessors that read \<open>hsba\<close> first run
  \<open>if (!c.hsba) { c.hsba = rgb2hsv(c.rgba[0], c.rgba[1], c.rgba[2]).concat(c.rgba[3]); }\<close>
  on the color object they work on: \<open>derived_hsba\<close> is the array assigned, \<open>fill_hsba\<close>
  the conditional assignment, with the number of calls of \<open>rgb2hsv\<close> it made.
\<close>

definition derived_hsba :: "color_value \<Rightarrow> jsval list" where
  "derived_hsba c =
     map Num (rgb2hsv (chan (rgba c) 0) (chan (rgba c) 1) (chan (rgba c) 2)) @ [num_get (rgba c) 3]"

definition fill_hsba :: "color_value \<Rightarrow> color_value \<times> nat" where
  "fill_hsba c =
     (case hsba c of
        None \<Rightarrow> (Color (isColor c) (Some (derived_hsba c)) (rgba c) (colorString c), 1)
      | Some h \<Rightarrow> (c, 0))"

definition brightness :: "p5 \<Rightarrow> jsval \<Rightarrow> error + outcome" where
  "brightness p c =
     (case as_color p c of
        Inl e \<Rightarrow> Inl e
      | Inr c1 \<Rightarrow>
          (let (c2, n) = fill_hsba c1
           in case hsba c2 of
                None \<Rightarrow> Inl TypeError
              | Some h \<Rightarrow> Inr (arr_get h 2, if is_color c then Obj c2 else c, n)))"

definition hue :: "p5 \<Rightarrow> jsval \<Rightarrow> error + outcome" where
  "hue p c =
     (case as_color p c of
        Inl e \<Rightarrow> Inl e
      | Inr c1 \<Rightarrow>
          (let (c2, n) = fill_hsba c1
           in case hsba c2 of
                None \<Rightarrow> Inl TypeError
              | Some h \<Rightarrow> Inr (arr_get h 0, if is_color c then Obj c2 else c, n)))"

definition saturation :: "p5 \<Rightarrow> jsval \<Rightarrow> error + outcome" where
  "saturation p c =
     (case as_color p c of
        Inl e \<Rightarrow> Inl e
      | Inr c1 \<Rightarrow>
          (let (c2, n) = fill_hsba c1
           in case hsba c2 of
                None \<Rightarrow> Inl TypeError
              | Some h \<Rightarrow> Inr (arr_get h 1, if is_color c then Obj c2 else c, n)))"

text \<open>A sequence of accessor calls on one object, the calls of \<open>rgb2hsv\<close> counted.\<close>

datatype accessor = GetRed | GetGreen | GetBlue | GetAlpha | GetHue | GetSaturation | GetBrightness

fun accessor_fun :: "accessor \<Rightarrow> p5 \<Rightarrow> jsval \<Rightarrow> error + outcome" where
  "accessor_fun GetRed = red"
| "accessor_fun GetGreen = green"
| "accessor_fun GetBlue = blue"
| "accessor_fun GetAlpha = alpha"
| "accessor_fun GetHue = hue"
| "accessor_fun GetSaturation = saturation"
| "accessor_fun GetBrightness = brightness"

fun run_accessors :: "p5 \<Rightarrow> accessor list \<Rightarrow> jsval \<Rightarrow> nat \<Rightarrow> error + (jsval \<times> nat)" where
  "run_accessors p [] c n = Inr (c, n)"
| "run_accessors p (a # as) c n =
     (case accessor_fun a p c of
        Inl e \<Rightarrow> Inl e
      | Inr (v, c1, k) \<Rightarrow> run_accessors p as c1 (n + k))"

text \<open>The accessors that read \<open>hsba\<close>.\<close>

fun is_hsb :: "accessor \<Rightarrow> bool" where
  "is_hsb GetHue = True"
| "is_hsb GetSaturation = True"
| "is_hsb GetBrightness = True"
| "is_hsb _ = False"

section \<open>lerpColor\<close>

text \<open>The read \<open>c2[i]\<close>.  A color object has no indexed properties.\<close>

fun get_idx :: "jsval \<Rightarrow> nat \<Rightarrow> error + jsval" where
  "get_idx Undefined i = Inl TypeError"
| "get_idx Null i = Inl TypeError"
| "get_idx (Arr ys) i = Inr (arr_get ys i)"
| "get_idx (Str s) i = Inr (if i < length s then Str [s ! i] else Undefined)"
| "get_idx v i = Inr Undefined"

text \<open>The \<open>for\<close> loop of \<open>lerpColor\<close>; \<open>lerp\<close> is defined elsewhere and is a parameter.\<close>

function lerp_loop ::
  "(jsval \<Rightarrow> jsval \<Rightarrow> jsval \<Rightarrow> jsval) \<Rightarrow> jsval list \<Rightarrow> jsval \<Rightarrow> jsval \<Rightarrow> nat \<Rightarrow> jsval list
     \<Rightarrow> error + jsval list" where
  "lerp_loop lerp c1 c2 amt i c =
     (if i < length c1
      then (case get_idx c2 i of
              Inl e \<Rightarrow> Inl e
            | Inr y \<Rightarrow> lerp_loop lerp c1 c2 amt (Suc i) (c @ [lerp (c1 ! i) y amt]))
      else Inr c)"
  by pat_completeness auto
termination
  by (relation "measure (\<lambda>(lerp, c1, c2, amt, i, c). length c1 - i)") auto

definition lerpColor ::
  "(jsval \<Rightarrow> jsval \<Rightarrow> jsval \<Rightarrow> jsval) \<Rightarrow> jsval \<Rightarrow> jsval \<Rightarrow> jsval \<Rightarrow> error + jsval" where
  "lerpColor lerp c1 c2 amt =
     (if is_object c1
      then (case c1 of
              Null \<Rightarrow> Inl TypeError
            | Arr xs \<Rightarrow> map_sum id Arr (lerp_loop lerp xs c2 amt 0 [])
            | _ \<Rightarrow> Inr (Arr []))
      else Inr (lerp c1 c2 amt))"

section \<open>Example sketches\<close>

text \<open>
  Two sketch instances for the worked examples below.  Their \<open>getNormalizedColor\<close> is a
  stand-in that passes numbers through unchanged, and their \<open>getColorString\<close> returns
  the empty string; no general theorem depends on either choice.
\<close>

fun number_or_nan :: "jsval \<Rightarrow> jsnum" where
  "number_or_nan (Num n) = n"
| "number_or_nan _ = NaN"

definition sketch_rgb :: p5 where
  "sketch_rgb = \<lparr>colorMode = RGB,
     maxRGB = [Num (Fin 255), Num (Fin 255), Num (Fin 255), Num (Fin 255)],
     maxHSB = [Num (Fin 255), Num (Fin 255), Num (Fin 255), Num (Fin 255)],
     getNormalizedColor = map number_or_nan,
     getColorString = (\<lambda>rgba. [])\<rparr>"

definition sketch_hsb :: p5 where
  "sketch_hsb = sketch_rgb\<lparr>colorMode := HSB\<rparr>"

text \<open>A stand-in for the library's scalar \<open>lerp\<close> in the examples: it returns its third argument.\<close>

definition lerp_stub :: "jsval \<Rightarrow> jsval \<Rightarrow> jsval \<Rightarrow> jsval" where
  "lerp_stub a b t = t"

section \<open>Properties of binary64 rounding\<close>

subsection \<open>Powers of two\<close>

lemma pow2_pos [simp]: "0 < pow2 e"
  by (simp add: pow2_def)

lemma pow2_nonneg [simp]: "0 \<le> pow2 e"
  by (simp add: pow2_def)

lemma pow2_neq0 [simp]: "pow2 e \<noteq> 0"
  by (simp add: pow2_def)

lemma pow2_add: "pow2 (a + b) = pow2 a * pow2 b"
  by (simp add: pow2_def power_int_add)

lemma pow2_diff: "pow2 (a - b) = pow2 a / pow2 b"
  by (simp add: pow2_def power_int_diff)

lemma pow2_0 [simp]: "pow2 0 = 1"
  by (simp add: pow2_def)

lemma pow2_1 [simp]: "pow2 1 = 2"
  by (simp add: pow2_def)

lemma pow2_Suc: "pow2 (e + 1) = 2 * pow2 e"
  by (simp add: pow2_add)

lemma pow2_mono: "a \<le> b \<Longrightarrow> pow2 a \<le> pow2 b"
  by (simp add: pow2_def power_int_increasing)

lemma pow2_strict_mono: "a < b \<Longrightarrow> pow2 a < pow2 b"
  by (simp add: pow2_def power_int_strict_increasing)

lemma pow2_le_iff [simp]: "pow2 a \<le> pow2 b \<longleftrightarrow> a \<le> b"
  using pow2_mono [of a b] pow2_strict_mono [of b a] by (auto simp: not_le [symmetric])

lemma pow2_less_iff [simp]: "pow2 a < pow2 b \<longleftrightarrow> a < b"
  using pow2_strict_mono [of a b] pow2_mono [of b a] by (auto simp: not_less [symmetric])

lemma pow2_nat: "0 \<le> e \<Longrightarrow> pow2 e = 2 ^ nat e"
  by (simp add: pow2_def power_int_def)

lemma pow2_of_int: "0 \<le> e \<Longrightarrow> pow2 e = of_int (2 ^ nat e)"
  by (simp add: pow2_nat)

subsection \<open>The binary exponent\<close>

lemma bitlen_pow2_bounds:
  assumes "0 < n"
  shows "pow2 (bitlen n - 1) \<le> of_int n" and "of_int n < pow2 (bitlen n)"
proof -
  have b1: "1 \<le> bitlen n" using assms by (simp add: bitlen_alt_def)
  have "(2::int) ^ nat (bitlen n - 1) \<le> n" and "n < 2 ^ nat (bitlen n)"
    using bitlen_bounds [OF assms] by auto
  then have "rat_of_int (2 ^ nat (bitlen n - 1)) \<le> of_int n"
    and "rat_of_int n < of_int (2 ^ nat (bitlen n))"
    by (simp_all only: of_int_le_iff of_int_less_iff)
  then show "pow2 (bitlen n - 1) \<le> of_int n" and "of_int n < pow2 (bitlen n)"
    using b1 by (simp_all add: pow2_nat)
qed

lemma expo_bounds:
  assumes "0 < x"
  shows "pow2 (expo x) \<le> x" and "x < pow2 (expo x + 1)"
proof -
  obtain p q where pq: "quotient_of x = (p, q)" by (cases "quotient_of x")
  have qpos: "0 < q" using quotient_of_denom_pos [OF pq] .
  have xeq: "x = of_int p / of_int q" using quotient_of_div [OF pq] .
  have ppos: "0 < p"
    using assms qpos unfolding xeq by (simp add: zero_less_divide_iff)
  define d where "d = bitlen p - bitlen q"
  have up: "x < pow2 (d + 1)"
  proof -
    have "of_int p < pow2 (bitlen p)" using bitlen_pow2_bounds [OF ppos] by simp
    also have "pow2 (bitlen p) = pow2 (d + 1) * pow2 (bitlen q - 1)"
      by (simp add: d_def pow2_add [symmetric])
    also have "\<dots> \<le> pow2 (d + 1) * of_int q"
      using bitlen_pow2_bounds(1) [OF qpos] by (simp add: mult_left_mono)
    finally show ?thesis using qpos unfolding xeq by (simp add: pos_divide_less_eq)
  qed
  have lo: "pow2 (d - 1) \<le> x"
  proof -
    have "pow2 (d - 1) * of_int q \<le> pow2 (d - 1) * pow2 (bitlen q)"
      using bitlen_pow2_bounds(2) [OF qpos] by (simp add: mult_left_mono)
    also have "\<dots> = pow2 (bitlen p - 1)"
      by (simp add: d_def pow2_add [symmetric])
    also have "\<dots> \<le> of_int p" using bitlen_pow2_bounds(1) [OF ppos] .
    finally show ?thesis using qpos unfolding xeq by (simp add: pos_le_divide_eq)
  qed
  have e: "expo x = (if pow2 d \<le> x then d else d - 1)"
    by (simp add: expo_def pq d_def Let_def)
  show "pow2 (expo x) \<le> x" using lo by (simp add: e)
  show "x < pow2 (expo x + 1)" using up by (auto simp add: e not_le)
qed

lemma expo_unique:
  assumes "pow2 e \<le> x" and "x < pow2 (e + 1)"
  shows "expo x = e"
proof -
  have xpos: "0 < x" using assms(1) pow2_pos [of e] by linarith
  note b = expo_bounds [OF xpos]
  have "pow2 e < pow2 (expo x + 1)" using assms(1) b(2) by linarith
  moreover have "pow2 (expo x) < pow2 (e + 1)" using assms(2) b(1) by linarith
  ultimately show ?thesis by simp
qed

lemma expo_mono:
  assumes "0 < x" and "x \<le> y"
  shows "expo x \<le> expo y"
proof -
  have "pow2 (expo x) \<le> x" using expo_bounds(1) [OF assms(1)] .
  also have "x \<le> y" by fact
  also have "y < pow2 (expo y + 1)" using expo_bounds(2) [of y] assms by simp
  finally show ?thesis by simp
qed

lemma expo_pow2 [simp]: "expo (pow2 e) = e"
  by (rule expo_unique) simp_all

subsection \<open>Rounding to the nearest integer, ties to even\<close>

lemma rne_disj:
  "rne y = \<lfloor>y\<rfloor> \<and> y - of_int \<lfloor>y\<rfloor> \<le> 1 / 2
   \<or> rne y = \<lfloor>y\<rfloor> + 1 \<and> 1 / 2 \<le> y - of_int \<lfloor>y\<rfloor>"
proof -
  consider "y - of_int \<lfloor>y\<rfloor> < 1 / 2" | "1 / 2 < y - of_int \<lfloor>y\<rfloor>"
    | "y - of_int \<lfloor>y\<rfloor> = 1 / 2" by linarith
  then show ?thesis
  proof cases
    case 1
    then show ?thesis by (simp add: rne_def Let_def)
  next
    case 2
    then show ?thesis by (simp add: rne_def Let_def)
  next
    case 3
    then show ?thesis by (simp add: rne_def Let_def)
  qed
qed

lemma rne_cases:
  obtains "rne y = \<lfloor>y\<rfloor>" and "y - of_int \<lfloor>y\<rfloor> \<le> 1 / 2"
  | "rne y = \<lfloor>y\<rfloor> + 1" and "1 / 2 \<le> y - of_int \<lfloor>y\<rfloor>"
  using rne_disj [of y] by blast

lemma rne_of_int [simp]: "rne (of_int n) = n"
  by (simp add: rne_def)

lemma rne_error: "\<bar>of_int (rne y) - y\<bar> \<le> 1 / 2"
proof (cases y rule: rne_cases)
  case 1
  have "of_int \<lfloor>y\<rfloor> \<le> y" by simp
  with 1 show ?thesis by simp
next
  case 2
  have "y < of_int \<lfloor>y\<rfloor> + 1" by linarith
  with 2 show ?thesis by simp
qed

lemma rne_mono:
  assumes "x \<le> y"
  shows "rne x \<le> rne y"
proof (cases "\<lfloor>x\<rfloor> = \<lfloor>y\<rfloor>")
  case True
  then show ?thesis using assms
    by (auto simp add: rne_def Let_def)
next
  case False
  then have fl: "\<lfloor>x\<rfloor> + 1 \<le> \<lfloor>y\<rfloor>"
    using floor_mono [OF assms] by linarith
  have "rne x \<le> \<lfloor>x\<rfloor> + 1" by (cases x rule: rne_cases) simp_all
  moreover have "\<lfloor>y\<rfloor> \<le> rne y" by (cases y rule: rne_cases) simp_all
  ultimately show ?thesis using fl by linarith
qed

lemma rne_ge: "of_int n \<le> y \<Longrightarrow> n \<le> rne y"
  using rne_mono [of "of_int n" y] by simp

lemma rne_le: "y \<le> of_int n \<Longrightarrow> rne y \<le> n"
  using rne_mono [of y "of_int n"] by simp

lemma rne_0 [simp]: "rne 0 = 0"
  using rne_of_int [of 0] by simp

subsection \<open>Rounding a magnitude\<close>

lemma expo_0: "expo 0 = - 2"
proof -
  have "bitlen 1 = 1" by (simp add: bitlen_alt_def)
  moreover have "\<not> pow2 (- 1) \<le> 0" using pow2_pos [of "- 1"] by linarith
  ultimately show ?thesis by (simp add: expo_def Let_def)
qed

lemma quantum_pos [simp]: "0 < quantum x"
  by (simp add: quantum_def)

lemma quantum_nonneg [simp]: "0 \<le> quantum x"
  by (simp add: quantum_def)

lemma quantum_neq0 [simp]: "quantum x \<noteq> 0"
  by (simp add: quantum_def)

lemma div_quantum_nonneg: "0 \<le> x \<Longrightarrow> 0 \<le> x / quantum x"
  by (rule divide_nonneg_pos) simp_all

lemma pow2_split: "pow2 a = pow2 b * pow2 (a - b)"
  by (simp add: pow2_diff)

lemma round_mag_0 [simp]: "round_mag 0 = 0"
  by (simp add: round_mag_def)

lemma round_mag_nonneg: "0 \<le> x \<Longrightarrow> 0 \<le> round_mag x"
proof -
  assume "0 \<le> x"
  then have "of_int 0 \<le> x / quantum x" by (simp add: div_quantum_nonneg)
  then have "0 \<le> rne (x / quantum x)" by (rule rne_ge)
  then show ?thesis by (simp add: round_mag_def)
qed

lemma pow2_53: "pow2 53 = of_int 9007199254740992"
  by (simp add: pow2_def)

lemma pow2_52: "pow2 52 = of_int 4503599627370496"
  by (simp add: pow2_def)

lemma round_mag_upper:
  assumes "0 < x"
  shows "round_mag x \<le> pow2 (max (expo x) (- 1022) + 1)"
proof -
  define E where "E = max (expo x) (- 1022)"
  have q: "quantum x = pow2 (E - 52)" by (simp add: quantum_def E_def)
  have "x < pow2 (expo x + 1)" using expo_bounds(2) [OF assms] .
  also have "\<dots> \<le> pow2 (E + 1)" by (simp add: E_def)
  also have "\<dots> = pow2 53 * pow2 (E - 52)" using pow2_split [of "E + 1" 53] by simp
  finally have "x / quantum x \<le> pow2 53"
    unfolding q by (simp add: pos_divide_le_eq)
  then have "rne (x / quantum x) \<le> 9007199254740992"
    unfolding pow2_53 by (rule rne_le)
  then have "rat_of_int (rne (x / quantum x)) \<le> of_int 9007199254740992"
    by (simp only: of_int_le_iff)
  then have "round_mag x \<le> pow2 53 * pow2 (E - 52)"
    unfolding round_mag_def q pow2_53 by (intro mult_right_mono) simp_all
  then show ?thesis using pow2_split [of "E + 1" 53] by (simp add: E_def)
qed

lemma round_mag_lower:
  assumes "0 < x" and "- 1022 \<le> expo x"
  shows "pow2 (expo x) \<le> round_mag x"
proof -
  have q: "quantum x = pow2 (expo x - 52)" using assms(2) by (simp add: quantum_def max_def)
  have "pow2 52 * pow2 (expo x - 52) = pow2 (expo x)" using pow2_split [of "expo x" 52] by simp
  also have "\<dots> \<le> x" using expo_bounds(1) [OF assms(1)] .
  finally have "pow2 52 \<le> x / quantum x"
    unfolding q by (simp add: pos_le_divide_eq)
  then have "4503599627370496 \<le> rne (x / quantum x)"
    unfolding pow2_52 by (rule rne_ge)
  then have "rat_of_int 4503599627370496 \<le> of_int (rne (x / quantum x))"
    by (simp only: of_int_le_iff)
  then have "pow2 52 * pow2 (expo x - 52) \<le> round_mag x"
    unfolding round_mag_def q pow2_52 by (intro mult_right_mono) simp_all
  then show ?thesis using pow2_split [of "expo x" 52] by simp
qed

lemma round_mag_mono:
  assumes "0 \<le> x" and "x \<le> y"
  shows "round_mag x \<le> round_mag y"
proof (cases "x = 0")
  case True
  then show ?thesis using assms round_mag_nonneg [of y] by simp
next
  case False
  then have xpos: "0 < x" using assms(1) by simp
  then have ypos: "0 < y" using assms(2) by simp
  have le: "expo x \<le> expo y" using expo_mono [OF xpos assms(2)] .
  show ?thesis
  proof (cases "max (expo x) (- 1022) = max (expo y) (- 1022)")
    case True
    then have q: "quantum x = quantum y" by (simp add: quantum_def)
    have "x / quantum y \<le> y / quantum y"
      using assms(2) by (intro divide_right_mono) simp_all
    then have "rne (x / quantum y) \<le> rne (y / quantum y)" by (rule rne_mono)
    then have "rat_of_int (rne (x / quantum y)) \<le> of_int (rne (y / quantum y))"
      by (simp only: of_int_le_iff)
    then show ?thesis
      unfolding round_mag_def q by (intro mult_right_mono) simp_all
  next
    case False
    with le have lt: "max (expo x) (- 1022) < expo y" and ny: "- 1022 \<le> expo y"
      by (auto simp: max_def split: if_splits)
    have "round_mag x \<le> pow2 (max (expo x) (- 1022) + 1)"
      using round_mag_upper [OF xpos] .
    also have "\<dots> \<le> pow2 (expo y)" using lt by (intro pow2_mono) linarith
    also have "\<dots> \<le> round_mag y" using round_mag_lower [OF ypos ny] .
    finally show ?thesis .
  qed
qed

text \<open>Multiples of a power of two with at most 53 significant bits are binary64 values.\<close>

lemma round_mag_exact:
  assumes "0 \<le> n" and "n \<le> 9007199254740992" and "- 1074 \<le> k"
  shows "round_mag (of_int n * pow2 k) = of_int n * pow2 k"
proof (cases "n = 0")
  case True
  then show ?thesis by simp
next
  case False
  define x where "x = rat_of_int n * pow2 k"
  define E where "E = max (expo x) (- 1022)"
  have npos: "0 < n" using False assms(1) by simp
  have xpos: "0 < x" using npos by (simp add: x_def)
  have q: "quantum x = pow2 (E - 52)" by (simp add: quantum_def E_def)
  have "\<exists>m. x / quantum x = rat_of_int m"
  proof (cases "E \<le> k + 52")
    case True
    then have "pow2 (k - E + 52) = of_int (2 ^ nat (k - E + 52))"
      by (intro pow2_of_int) simp
    moreover have "x / quantum x = of_int n * pow2 (k - E + 52)"
    proof -
      have "x / quantum x = of_int n * (pow2 k / pow2 (E - 52))"
        by (simp add: q) (simp add: x_def)
      also have "pow2 k / pow2 (E - 52) = pow2 (k - (E - 52))" by (simp add: pow2_diff)
      also have "k - (E - 52) = k - E + 52" by simp
      finally show ?thesis .
    qed
    ultimately have "x / quantum x = of_int (n * 2 ^ nat (k - E + 52))" by simp
    then show ?thesis by blast
  next
    case False
    then have big: "k + 53 \<le> E" by simp
    with assms(3) have Ee: "E = expo x" by (simp add: E_def max_def split: if_splits)
    have "pow2 (k + 53) \<le> pow2 E" using big by simp
    also have "\<dots> \<le> x" unfolding Ee using expo_bounds(1) [OF xpos] .
    finally have "pow2 53 * pow2 k \<le> of_int n * pow2 k"
      by (simp add: x_def pow2_add add.commute)
    then have "pow2 53 \<le> of_int n" by simp
    then have "rat_of_int 9007199254740992 \<le> of_int n" by (simp add: pow2_53)
    then have "9007199254740992 \<le> n" by (simp only: of_int_le_iff)
    with assms(2) have n: "n = 9007199254740992" by simp
    have xe: "x = pow2 (k + 53)"
      unfolding x_def n pow2_add pow2_53 by simp
    then have "E = k + 53" by (simp add: Ee)
    then have "quantum x = pow2 (k + 1)" by (simp add: q add.commute)
    then have "x / quantum x = pow2 (k + 53 - (k + 1))"
      by (simp only: xe pow2_diff)
    then have "x / quantum x = pow2 52" by simp
    then show ?thesis unfolding pow2_52 by blast
  qed
  then obtain m where m: "x / quantum x = rat_of_int m" by blast
  then have "round_mag x = of_int m * quantum x" by (simp add: round_mag_def)
  also have "\<dots> = x" using m [symmetric] by simp
  finally show ?thesis by (simp add: x_def)
qed

lemma round_mag_grid:
  assumes "0 \<le> x"
  shows "\<exists>n k. round_mag x = of_int n * pow2 k \<and> 0 \<le> n \<and> n \<le> 9007199254740992 \<and> - 1074 \<le> k"
proof (cases "x = 0")
  case True
  have "round_mag x = of_int 0 * pow2 0" using True by simp
  then show ?thesis by (intro exI [of _ 0] exI [of _ "0::int"]) simp
next
  case False
  then have xpos: "0 < x" using assms by simp
  define E where "E = max (expo x) (- 1022)"
  have q: "quantum x = pow2 (E - 52)" by (simp add: quantum_def E_def)
  have "of_int 0 \<le> x / quantum x" using assms by (simp add: div_quantum_nonneg)
  then have n0: "0 \<le> rne (x / quantum x)" by (rule rne_ge)
  have "x < pow2 (expo x + 1)" using expo_bounds(2) [OF xpos] .
  also have "\<dots> \<le> pow2 (E + 1)" by (simp add: E_def)
  also have "\<dots> = pow2 53 * pow2 (E - 52)" using pow2_split [of "E + 1" 53] by simp
  finally have "x / quantum x \<le> pow2 53"
    unfolding q by (simp add: pos_divide_le_eq)
  then have n1: "rne (x / quantum x) \<le> 9007199254740992"
    unfolding pow2_53 by (rule rne_le)
  have "- 1074 \<le> E - 52" by (simp add: E_def)
  with n0 n1 show ?thesis
    unfolding round_mag_def q by blast
qed

lemma round_mag_idem:
  assumes "0 \<le> x"
  shows "round_mag (round_mag x) = round_mag x"
proof -
  obtain n k where "round_mag x = of_int n * pow2 k" "0 \<le> n" "n \<le> 9007199254740992" "- 1074 \<le> k"
    using round_mag_grid [OF assms] by blast
  then show ?thesis by (simp add: round_mag_exact)
qed

lemma round_mag_error:
  "\<bar>round_mag x - x\<bar> \<le> quantum x / 2"
proof -
  have "quantum x \<noteq> 0" using quantum_pos [of x] by linarith
  then have "round_mag x - x = (of_int (rne (x / quantum x)) - x / quantum x) * quantum x"
    by (simp add: round_mag_def left_diff_distrib)
  then have "\<bar>round_mag x - x\<bar> = \<bar>of_int (rne (x / quantum x)) - x / quantum x\<bar> * quantum x"
    by (simp add: abs_mult)
  also have "\<dots> \<le> (1 / 2) * quantum x"
    by (intro mult_right_mono rne_error) simp
  finally show ?thesis by simp
qed

lemma quantum_le:
  assumes "0 < x" and "x < pow2 (e + 1)" and "- 1022 \<le> e"
  shows "quantum x \<le> pow2 (e - 52)"
proof -
  have "pow2 (expo x) < pow2 (e + 1)"
    using expo_bounds(1) [OF assms(1)] assms(2) by linarith
  then have "expo x \<le> e" by simp
  with assms(3) show ?thesis by (simp add: quantum_def)
qed

lemma round_mag_pow2: "- 1074 \<le> k \<Longrightarrow> round_mag (pow2 k) = pow2 k"
  using round_mag_exact [of 1 k] by simp

lemma round_mag_abs_error:
  assumes "0 \<le> x" and "x \<le> pow2 (e + 1)" and "- 1022 \<le> e"
  shows "\<bar>round_mag x - x\<bar> \<le> pow2 (e - 53)"
proof -
  consider "x = 0" | "x = pow2 (e + 1)" | "0 < x" "x < pow2 (e + 1)"
    using assms by linarith
  then show ?thesis
  proof cases
    case 1
    then show ?thesis by simp
  next
    case 2
    then show ?thesis using assms(3) by (simp add: round_mag_pow2)
  next
    case 3
    have "\<bar>round_mag x - x\<bar> \<le> quantum x / 2" by (rule round_mag_error)
    also have "\<dots> \<le> pow2 (e - 52) / 2"
      using quantum_le [OF 3 assms(3)] by simp
    also have "\<dots> = pow2 (e - 53)"
      using pow2_Suc [of "e - 53"] by simp
    finally show ?thesis .
  qed
qed

subsection \<open>Values on the binary64 grid\<close>

lemma round_mag_le:
  assumes "0 \<le> x" and "x \<le> d" and "round_mag d = d"
  shows "round_mag x \<le> d"
  using round_mag_mono [OF assms(1,2)] assms(3) by simp

lemma round_mag_ge:
  assumes "0 \<le> d" and "d \<le> x" and "round_mag d = d"
  shows "d \<le> round_mag x"
  using round_mag_mono [OF assms(1,2)] assms(3) by simp

lemma round_mag_1 [simp]: "round_mag 1 = 1"
  using round_mag_pow2 [of 0] by simp

lemma round_mag_2 [simp]: "round_mag 2 = 2"
  using round_mag_pow2 [of 1] by simp

lemma round_mag_255 [simp]: "round_mag 255 = 255"
  using round_mag_exact [of 255 0] by simp

lemma round_mag_le_1: "0 \<le> x \<Longrightarrow> x \<le> 1 \<Longrightarrow> round_mag x \<le> 1"
  by (rule round_mag_le) simp_all

lemma round_mag_le_2: "0 \<le> x \<Longrightarrow> x \<le> 2 \<Longrightarrow> round_mag x \<le> 2"
  by (rule round_mag_le) simp_all

lemma round_mag_le_255: "0 \<le> x \<Longrightarrow> x \<le> 255 \<Longrightarrow> round_mag x \<le> 255"
  by (rule round_mag_le) simp_all

text \<open>Every binary64 value is an integer multiple of \<open>pow2 (-1074)\<close>.\<close>

lemma round_mag_multiple:
  assumes "0 \<le> x"
  shows "\<exists>m. round_mag x = of_int m * pow2 (- 1074)"
proof -
  obtain n k where nk: "round_mag x = of_int n * pow2 k" "- 1074 \<le> k"
    using round_mag_grid [OF assms] by blast
  have "pow2 k = pow2 (- 1074) * pow2 (k + 1074)"
    using pow2_split [of k "- 1074"] by simp
  also have "pow2 (k + 1074) = of_int (2 ^ nat (k + 1074))"
    using nk(2) by (intro pow2_of_int) simp
  finally have "round_mag x = of_int (n * 2 ^ nat (k + 1074)) * pow2 (- 1074)"
    using nk(1) by simp
  then show ?thesis by blast
qed

lemma multiple_pos_ge:
  assumes "x = of_int m * pow2 (- 1074)" and "0 < x"
  shows "pow2 (- 1074) \<le> x"
proof -
  have "0 < rat_of_int m"
    using assms pow2_pos [of "- 1074"] by (simp add: zero_less_mult_iff del: pow2_pos)
  then have "1 \<le> m" by simp
  then have "1 \<le> rat_of_int m" by simp
  then have "1 * pow2 (- 1074) \<le> of_int m * pow2 (- 1074)"
    by (intro mult_right_mono) simp_all
  then show ?thesis using assms(1) by simp
qed

lemma round_mag_pos:
  assumes "pow2 (- 1074) \<le> x"
  shows "0 < round_mag x"
proof -
  have "pow2 (- 1074) \<le> round_mag x"
    using assms by (intro round_mag_ge round_mag_pow2) simp_all
  then show ?thesis using pow2_pos [of "- 1074"] by linarith
qed

subsection \<open>The operators on finite values\<close>

lemma expo_le:
  assumes "0 \<le> m" and "m \<le> pow2 e" and "- 2 \<le> e"
  shows "expo m \<le> e"
proof (cases "m = 0")
  case True
  then show ?thesis using assms(3) by (simp add: expo_0)
next
  case False
  then have "0 < m" using assms(1) by simp
  then have "pow2 (expo m) \<le> m" by (rule expo_bounds)
  then have "pow2 (expo m) \<le> pow2 e" using assms(2) by linarith
  then show ?thesis by simp
qed

lemma to_double_nonneg:
  assumes "0 \<le> x" and "x \<le> pow2 1023"
  shows "to_double x = Fin (round_mag x)"
proof -
  have "round_mag x \<le> pow2 1023"
    using assms by (intro round_mag_le round_mag_pow2) simp_all
  then have "expo (round_mag x) \<le> 1023"
    using round_mag_nonneg [OF assms(1)] by (intro expo_le) simp_all
  then show ?thesis using assms(1) by (simp add: to_double_def Let_def)
qed

lemma to_double_neg:
  assumes "x < 0" and "- x \<le> pow2 1023"
  shows "to_double x = (if round_mag (- x) = 0 then NegZero else Fin (- round_mag (- x)))"
proof -
  have "round_mag (- x) \<le> pow2 1023"
    using assms by (intro round_mag_le round_mag_pow2) simp_all
  moreover have "0 \<le> round_mag (- x)" using assms(1) by (intro round_mag_nonneg) simp
  ultimately have "expo (round_mag (- x)) \<le> 1023"
    by (intro expo_le) simp_all
  moreover have "\<bar>x\<bar> = - x" using assms(1) by simp
  ultimately show ?thesis using assms(1) by (simp add: to_double_def Let_def)
qed

lemma js_add_Fin:
  "js_add (Fin x) (Fin y) = (if x + y = 0 then Fin 0 else to_double (x + y))"
  by (auto simp add: js_add_def)

lemma js_sub_Fin:
  "js_sub (Fin x) (Fin y) = (if x - y = 0 then Fin 0 else to_double (x - y))"
  by (auto simp add: js_sub_def js_add_def)

lemma js_mul_Fin:
  "0 \<le> x \<Longrightarrow> 0 \<le> y \<Longrightarrow>
   js_mul (Fin x) (Fin y) = (if x * y = 0 then Fin 0 else to_double (x * y))"
  by (auto simp add: js_mul_def zero_of_def)

lemma js_div_Fin:
  "0 \<le> x \<Longrightarrow> 0 < y \<Longrightarrow>
   js_div (Fin x) (Fin y) = (if x = 0 then Fin 0 else to_double (x / y))"
  by (auto simp add: js_div_def zero_of_def)

lemma js_add_nonneg:
  assumes "0 \<le> x + y" and "x + y \<le> pow2 1023"
  shows "js_add (Fin x) (Fin y) = Fin (round_mag (x + y))"
  using assms by (simp add: js_add_Fin to_double_nonneg)

lemma js_sub_nonneg:
  assumes "y \<le> x" and "x - y \<le> pow2 1023"
  shows "js_sub (Fin x) (Fin y) = Fin (round_mag (x - y))"
  using assms by (simp add: js_sub_Fin to_double_nonneg)

lemma js_mul_nonneg:
  assumes "0 \<le> x" and "0 \<le> y" and "x * y \<le> pow2 1023"
  shows "js_mul (Fin x) (Fin y) = Fin (round_mag (x * y))"
  using assms by (auto simp add: js_mul_Fin to_double_nonneg)

lemma js_div_nonneg:
  assumes "0 \<le> x" and "0 < y" and "x / y \<le> pow2 1023"
  shows "js_div (Fin x) (Fin y) = Fin (round_mag (x / y))"
  using assms by (auto simp add: js_div_Fin to_double_nonneg)

lemma math_max_Fin:
  "math_max (Fin x) (Fin y) (Fin z) = Fin (max (max x y) z)"
  by (auto simp add: math_max_def math_max2_def js_lt_def max_def)

lemma math_min_Fin:
  "math_min (Fin x) (Fin y) (Fin z) = Fin (min (min x y) z)"
  by (auto simp add: math_min_def math_min2_def js_lt_def min_def)

lemma js_eq_Fin [simp]: "js_eq (Fin x) (Fin y) \<longleftrightarrow> x = y"
  by (simp add: js_eq_def)

lemma js_lt_Fin [simp]: "js_lt (Fin x) (Fin y) \<longleftrightarrow> x < y"
  by (simp add: js_lt_def)

lemma js_gt_Fin [simp]: "js_gt (Fin x) (Fin y) \<longleftrightarrow> y < x"
  by (simp add: js_gt_def)

lemma math_round_nonneg:
  assumes "0 \<le> q"
  shows "math_round (Fin q) = Fin (of_int \<lfloor>q + 1 / 2\<rfloor>)"
  using assms by simp

lemma pow2_1023_ge: "x \<le> 65536 \<Longrightarrow> x \<le> pow2 1023"
proof -
  assume "x \<le> 65536"
  also have "(65536::rat) = pow2 16" by (simp add: pow2_def)
  also have "\<dots> \<le> pow2 1023" by simp
  finally show ?thesis .
qed

lemma quantum_mono:
  assumes "0 < x" and "x \<le> y"
  shows "quantum x \<le> quantum y"
  using expo_mono [OF assms] by (simp add: quantum_def)

lemma round_mag_upper_error: "round_mag x \<le> x + quantum x / 2"
  using round_mag_error [of x] by linarith

lemma quantum_normal_le:
  assumes "0 < d" and "- 1022 \<le> expo d"
  shows "quantum d \<le> d * pow2 (- 52)"
proof -
  have "quantum d = pow2 (expo d) * pow2 (- 52)"
    using assms(2) by (simp add: quantum_def max_def pow2_add [symmetric])
  also have "\<dots> \<le> d * pow2 (- 52)"
    using expo_bounds(1) [OF assms(1)] by (intro mult_right_mono) simp_all
  finally show ?thesis .
qed

lemma pow2_m52_le: "pow2 (- 52) \<le> 1 / 3"
proof -
  have "pow2 (- 52) \<le> pow2 (- 2)" by simp
  also have "pow2 (- 2) = 1 / 4" by (simp add: pow2_def)
  finally show ?thesis by simp
qed

lemma rne_sixth_half_small:
  "rne (1 / 6) = 0" "rne (1 / 2) = 0" "rne (1 / 3) = 0" "rne 1 = 1"
proof -
  have f: "\<lfloor>1 / 6 :: rat\<rfloor> = 0" "\<lfloor>1 / 2 :: rat\<rfloor> = 0" "\<lfloor>1 / 3 :: rat\<rfloor> = 0"
    by (rule floor_unique; simp)+
  show "rne (1 / 6) = 0" "rne (1 / 2) = 0" "rne (1 / 3) = 0"
    using f by (simp_all add: rne_def Let_def)
  show "rne 1 = 1" using rne_of_int [of 1] by simp
qed

lemma round_mag_subnormal:
  assumes "0 < x" and "expo x < - 1022"
  shows "round_mag x = of_int (rne (x / pow2 (- 1074))) * pow2 (- 1074)"
  using assms by (simp add: round_mag_def quantum_def max_def)

lemma sixth_half_le:
  assumes "0 < d" and "round_mag d = d"
  shows "round_mag (d / 6) + round_mag (d / 2) \<le> d"
proof (cases "3 * quantum d \<le> d")
  case True
  have "round_mag (d / 6) \<le> d / 6 + quantum (d / 6) / 2" by (rule round_mag_upper_error)
  moreover have "quantum (d / 6) \<le> quantum d"
    using assms(1) by (intro quantum_mono) simp_all
  moreover have "round_mag (d / 2) \<le> d / 2 + quantum (d / 2) / 2" by (rule round_mag_upper_error)
  moreover have "quantum (d / 2) \<le> quantum d"
    using assms(1) by (intro quantum_mono) simp_all
  ultimately show ?thesis using True by linarith
next
  case False
  have sub: "expo d < - 1022"
  proof (rule ccontr)
    assume "\<not> expo d < - 1022"
    then have "quantum d \<le> d * pow2 (- 52)"
      using assms(1) by (intro quantum_normal_le) simp_all
    also have "\<dots> \<le> d * (1 / 3)"
      using assms(1) pow2_m52_le by (intro mult_left_mono) simp_all
    finally show False using False by simp
  qed
  then have q: "quantum d = pow2 (- 1074)" by (simp add: quantum_def max_def)
  obtain m where m: "d = of_int m * pow2 (- 1074)"
    using round_mag_multiple [of d] assms by auto
  have "0 < rat_of_int m"
    using assms(1) pow2_pos [of "- 1074"] unfolding m
    by (simp add: zero_less_mult_iff del: pow2_pos)
  then have m1: "1 \<le> m" by simp
  have "d < 3 * pow2 (- 1074)" using False q by simp
  then have "rat_of_int m * pow2 (- 1074) < 3 * pow2 (- 1074)"
    unfolding m .
  then have "rat_of_int m < 3" by simp
  then have "m < 3" by simp
  with m1 consider "m = 1" | "m = 2" by linarith
  then show ?thesis
  proof cases
    case 1
    then have d: "d = pow2 (- 1074)" using m by simp
    have e6: "expo (d / 6) < - 1022"
      using expo_mono [of "d / 6" d] assms(1) sub by simp
    have e2: "expo (d / 2) < - 1022"
      using expo_mono [of "d / 2" d] assms(1) sub by simp
    have "round_mag (d / 6) = 0"
      using round_mag_subnormal [OF _ e6] assms(1) by (simp add: d rne_sixth_half_small)
    moreover have "round_mag (d / 2) = 0"
      using round_mag_subnormal [OF _ e2] assms(1) by (simp add: d rne_sixth_half_small)
    ultimately show ?thesis using assms(1) by simp
  next
    case 2
    then have d: "d = 2 * pow2 (- 1074)" using m by simp
    have e6: "expo (d / 6) < - 1022"
      using expo_mono [of "d / 6" d] assms(1) sub by simp
    have e2: "expo (d / 2) < - 1022"
      using expo_mono [of "d / 2" d] assms(1) sub by simp
    have "round_mag (d / 6) = 0"
      using round_mag_subnormal [OF _ e6] assms(1) by (simp add: d rne_sixth_half_small)
    moreover have "round_mag (d / 2) = pow2 (- 1074)"
      using round_mag_subnormal [OF _ e2] assms(1) by (simp add: d rne_sixth_half_small)
    ultimately show ?thesis by (simp add: d)
  qed
qed

subsection \<open>Evaluating a rounding\<close>

lemma rne_unique:
  assumes "of_int n - 1 / 2 < y" and "y < of_int n + 1 / 2"
  shows "rne y = n"
proof -
  have "\<bar>rat_of_int (rne y) - y\<bar> \<le> 1 / 2" by (rule rne_error)
  then have "\<bar>rat_of_int (rne y) - of_int n\<bar> < 1" using assms by linarith
  then have "\<bar>rat_of_int (rne y - n)\<bar> < 1" by simp
  then have "\<bar>rne y - n\<bar> < 1" by (simp only: of_int_abs [symmetric] of_int_less_1_iff)
  then show ?thesis by linarith
qed

lemma round_mag_eval:
  assumes "pow2 e \<le> x" and "x < pow2 (e + 1)" and "- 1022 \<le> e"
    and "of_int n - 1 / 2 < x / pow2 (e - 52)" and "x / pow2 (e - 52) < of_int n + 1 / 2"
  shows "round_mag x = of_int n * pow2 (e - 52)"
proof -
  have "expo x = e" using assms(1,2) by (rule expo_unique)
  then have "round_mag x = of_int (rne (x / pow2 (e - 52))) * pow2 (e - 52)"
    using assms(3) by (simp add: round_mag_def quantum_def max_def)
  then show ?thesis using rne_unique [OF assms(4,5)] by simp
qed

lemma pow2_numeral: "pow2 (numeral n) = 2 ^ numeral n"
  by (simp add: pow2_def)

lemma pow2_neg_numeral: "pow2 (- numeral n) = 1 / 2 ^ numeral n"
  by (simp add: pow2_def power_int_minus_divide)

lemma pow2_minus_1: "pow2 (- 1) = 1 / 2"
  by (simp add: pow2_def inverse_eq_divide)

lemmas pow2_eval = pow2_numeral pow2_neg_numeral pow2_minus_1

text \<open>A code equation that computes a power of two from an integer power.\<close>

lemma pow2_code [code]:
  "pow2 e = (if 0 \<le> e then of_int (2 ^ nat e) else 1 / of_int (2 ^ nat (- e)))"
  by (simp add: pow2_def power_int_def power_one_over [symmetric] inverse_eq_divide)

section \<open>Properties of \<open>rgb2hsv\<close>\<close>

subsection \<open>Ranges of the intermediate values\<close>

lemma normalize_channel:
  assumes "0 \<le> x" and "x \<le> 255"
  shows "js_div (Fin x) (Fin 255) = Fin (round_mag (x / 255))"
    and "0 \<le> round_mag (x / 255)" and "round_mag (x / 255) \<le> 1"
proof -
  have le1: "x / 255 \<le> 1" using assms by simp
  show "js_div (Fin x) (Fin 255) = Fin (round_mag (x / 255))"
    using assms le1 by (intro js_div_nonneg pow2_1023_ge) simp_all
  show "0 \<le> round_mag (x / 255)" using assms by (intro round_mag_nonneg) simp
  show "round_mag (x / 255) \<le> 1" using assms le1 by (intro round_mag_le_1) simp_all
qed

lemma channel_delta_range:
  assumes "0 \<le> X" and "X \<le> mx" and "mx - X \<le> y" and "0 \<le> y" and "y \<le> 1"
    and "d = round_mag y" and "0 < d"
  shows "\<exists>e. js_div (js_add (js_div (js_sub (Fin mx) (Fin X)) (Fin 6)) (js_div (Fin d) (Fin 2)))
               (Fin d) = Fin e
             \<and> 0 \<le> e \<and> e \<le> 1 \<and> round_mag e = e"
proof -
  have dd: "round_mag d = d" using assms(4,6) by (simp add: round_mag_idem)
  have d1: "d \<le> 1" unfolding assms(6) using assms(4,5) by (rule round_mag_le_1)
  define t where "t = round_mag (mx - X)"
  have t0: "0 \<le> t" unfolding t_def using assms(2) by (intro round_mag_nonneg) simp
  have td: "t \<le> d" unfolding t_def assms(6) using assms(2,3) by (intro round_mag_mono) simp_all
  have e1: "js_sub (Fin mx) (Fin X) = Fin t"
    unfolding t_def using assms(2,3,5) by (intro js_sub_nonneg pow2_1023_ge) simp_all
  define a where "a = round_mag (t / 6)"
  have a0: "0 \<le> a" unfolding a_def using t0 by (intro round_mag_nonneg) simp
  have a6: "a \<le> round_mag (d / 6)" unfolding a_def using t0 td by (intro round_mag_mono) simp_all
  have e2: "js_div (Fin t) (Fin 6) = Fin a"
    unfolding a_def using t0 td d1 by (intro js_div_nonneg pow2_1023_ge) simp_all
  define b where "b = round_mag (d / 2)"
  have b0: "0 \<le> b" unfolding b_def using assms(7) by (intro round_mag_nonneg) simp
  have e3: "js_div (Fin d) (Fin 2) = Fin b"
    unfolding b_def using assms(7) d1 by (intro js_div_nonneg pow2_1023_ge) simp_all
  have ab: "a + b \<le> d" using sixth_half_le [OF assms(7) dd] a6 by (simp add: b_def)
  define c where "c = round_mag (a + b)"
  have c0: "0 \<le> c" unfolding c_def using a0 b0 by (intro round_mag_nonneg) simp
  have cd: "c \<le> d" unfolding c_def using a0 b0 ab dd by (intro round_mag_le) simp_all
  have e4: "js_add (Fin a) (Fin b) = Fin c"
    unfolding c_def using a0 b0 ab d1 by (intro js_add_nonneg pow2_1023_ge) simp_all
  define e where "e = round_mag (c / d)"
  have q1: "c / d \<le> 1" using cd assms(7) by simp
  have q0: "0 \<le> c / d" using c0 assms(7) by simp
  have "c / d \<le> 65536" using q1 by linarith
  then have e5: "js_div (Fin c) (Fin d) = Fin e"
    unfolding e_def using c0 assms(7) by (intro js_div_nonneg pow2_1023_ge)
  have "0 \<le> e" unfolding e_def using q0 by (rule round_mag_nonneg)
  moreover have "e \<le> 1" unfolding e_def using q0 q1 by (rule round_mag_le_1)
  moreover have "round_mag e = e" unfolding e_def using q0 by (rule round_mag_idem)
  ultimately show ?thesis by (simp add: e1 e2 e3 e4 e5)
qed

lemma js_sub_range:
  assumes "0 \<le> x" and "0 \<le> y" and "round_mag x = x" and "round_mag y = y"
    and "x \<le> 2" and "y \<le> 2"
  shows "\<exists>h. js_sub (Fin x) (Fin y) = Fin h \<and> - y \<le> h \<and> h \<le> x"
proof -
  consider "x = y" | "y < x" | "x < y" by linarith
  then show ?thesis
  proof cases
    case 1
    then show ?thesis using assms(1) by (simp add: js_sub_Fin)
  next
    case 2
    have "js_sub (Fin x) (Fin y) = Fin (round_mag (x - y))"
      using 2 assms(2,5) by (intro js_sub_nonneg pow2_1023_ge) simp_all
    moreover have "0 \<le> round_mag (x - y)" using 2 by (intro round_mag_nonneg) simp
    moreover have "round_mag (x - y) \<le> x"
      using 2 assms(2,3) by (intro round_mag_le) simp_all
    ultimately show ?thesis using assms(2) by simp
  next
    case 3
    obtain m1 where m1: "x = of_int m1 * pow2 (- 1074)"
      using round_mag_multiple [OF assms(1)] assms(3) by auto
    obtain m2 where m2: "y = of_int m2 * pow2 (- 1074)"
      using round_mag_multiple [OF assms(2)] assms(4) by auto
    have "y - x = of_int (m2 - m1) * pow2 (- 1074)"
      by (simp add: m1 m2 left_diff_distrib)
    moreover have "0 < y - x" using 3 by simp
    ultimately have "pow2 (- 1074) \<le> y - x" by (rule multiple_pos_ge)
    then have pos: "0 < round_mag (y - x)" by (rule round_mag_pos)
    have "y - x \<le> pow2 1023" using assms(1,6) by (intro pow2_1023_ge) simp
    then have "to_double (x - y) = Fin (- round_mag (y - x))"
      using 3 pos to_double_neg [of "x - y"] by simp
    then have "js_sub (Fin x) (Fin y) = Fin (- round_mag (y - x))"
      using 3 by (simp add: js_sub_Fin)
    moreover have "round_mag (y - x) \<le> y"
      using 3 assms(1,4) by (intro round_mag_le) simp_all
    ultimately show ?thesis using pos assms(1) by simp
  qed
qed

lemma wrap_hue_range:
  assumes "- 1 \<le> h" and "h \<le> 2"
  shows "\<exists>H. (if js_gt (if js_lt (Fin h) (Fin 0) then js_add (Fin h) (Fin 1) else Fin h) (Fin 1)
              then js_sub (if js_lt (Fin h) (Fin 0) then js_add (Fin h) (Fin 1) else Fin h) (Fin 1)
              else (if js_lt (Fin h) (Fin 0) then js_add (Fin h) (Fin 1) else Fin h)) = Fin H
             \<and> 0 \<le> H \<and> H \<le> 1"
proof (cases "h < 0")
  case True
  have "js_add (Fin h) (Fin 1) = Fin (round_mag (h + 1))"
    using True assms(1) by (intro js_add_nonneg pow2_1023_ge) simp_all
  moreover have "0 \<le> round_mag (h + 1)" using assms(1) by (intro round_mag_nonneg) simp
  moreover have "round_mag (h + 1) \<le> 1" using True assms(1) by (intro round_mag_le_1) simp_all
  ultimately show ?thesis using True by simp
next
  case False
  show ?thesis
  proof (cases "1 < h")
    case True
    have "js_sub (Fin h) (Fin 1) = Fin (round_mag (h - 1))"
      using True assms(2) by (intro js_sub_nonneg pow2_1023_ge) simp_all
    moreover have "0 \<le> round_mag (h - 1)" using True by (intro round_mag_nonneg) simp
    moreover have "round_mag (h - 1) \<le> 1" using True assms(2) by (intro round_mag_le_1) simp_all
    ultimately show ?thesis using True False by simp
  next
    case F2: False
    then show ?thesis using False by simp
  qed
qed

lemma scale_round_range:
  assumes "0 \<le> H" and "H \<le> 1"
  shows "\<exists>n. math_round (js_mul (Fin H) (Fin 255)) = Fin (of_int n) \<and> 0 \<le> n \<and> n \<le> 255"
proof -
  define q where "q = round_mag (H * 255)"
  have hq: "H * 255 \<le> 255" using assms by simp
  have e: "js_mul (Fin H) (Fin 255) = Fin q"
    unfolding q_def using assms hq by (intro js_mul_nonneg pow2_1023_ge) simp_all
  have q0: "0 \<le> q" unfolding q_def using assms by (intro round_mag_nonneg) simp
  have q1: "q \<le> 255" unfolding q_def using assms hq by (intro round_mag_le_255) simp_all
  have "0 \<le> \<lfloor>q + 1 / 2\<rfloor>" using q0 by simp
  moreover have "\<lfloor>q + 1 / 2\<rfloor> \<le> 255" using q1 by (simp add: floor_le_iff)
  ultimately show ?thesis using q0 by (simp add: e)
qed

subsection \<open>The branches\<close>

lemma rgb2hsv_achromatic:
  assumes "js_eq (delta r g b) (Fin 0)"
  shows "rgb2hsv r g b = [scaled (Fin 0), scaled (Fin 0), scaled (max_c r g b)]"
  using assms
  by (simp add: rgb2hsv_def Let_def delta_def max_c_def min_c_def normalized_def scaled_def)

lemma rgb2hsv_chromatic_r:
  assumes "\<not> js_eq (delta r g b) (Fin 0)" and "js_eq (normalized r) (max_c r g b)"
  shows "rgb2hsv r g b =
    [scaled (wrap_hue (js_sub (channel_delta r g b b) (channel_delta r g b g))),
     scaled (js_div (delta r g b) (max_c r g b)), scaled (max_c r g b)]"
  using assms
  by (simp add: rgb2hsv_def Let_def delta_def max_c_def min_c_def normalized_def scaled_def
      channel_delta_def wrap_hue_def)

lemma rgb2hsv_chromatic_g:
  assumes "\<not> js_eq (delta r g b) (Fin 0)" and "\<not> js_eq (normalized r) (max_c r g b)"
    and "js_eq (normalized g) (max_c r g b)"
  shows "rgb2hsv r g b =
    [scaled (wrap_hue (js_sub (js_add (js_div (Fin 1) (Fin 3)) (channel_delta r g b r))
                              (channel_delta r g b b))),
     scaled (js_div (delta r g b) (max_c r g b)), scaled (max_c r g b)]"
  using assms
  by (simp add: rgb2hsv_def Let_def delta_def max_c_def min_c_def normalized_def scaled_def
      channel_delta_def wrap_hue_def)

lemma rgb2hsv_chromatic_b:
  assumes "\<not> js_eq (delta r g b) (Fin 0)" and "\<not> js_eq (normalized r) (max_c r g b)"
    and "\<not> js_eq (normalized g) (max_c r g b)" and "js_eq (normalized b) (max_c r g b)"
  shows "rgb2hsv r g b =
    [scaled (wrap_hue (js_sub (js_add (js_div (Fin 2) (Fin 3)) (channel_delta r g b g))
                              (channel_delta r g b r))),
     scaled (js_div (delta r g b) (max_c r g b)), scaled (max_c r g b)]"
  using assms
  by (simp add: rgb2hsv_def Let_def delta_def max_c_def min_c_def normalized_def scaled_def
      channel_delta_def wrap_hue_def)

text \<open>
  C6.  In the chromatic branch the channel tests are made with \<open>===\<close> against the
  maximum in the order red, green, blue, and the first that succeeds determines the hue:
  when the red channel equals the maximum the hue comes from \<open>dB - dG\<close>, whether or not
  another channel equals the maximum too; the green formula \<open>1/3 + dR - dB\<close> is used only
  when the red test fails, and the blue formula \<open>2/3 + dG - dR\<close> only when both fail.
\<close>

theorem rgb2hsv_branch_order:
  assumes "\<not> js_eq (delta r g b) (Fin 0)"
  shows "(js_eq (normalized r) (max_c r g b) \<longrightarrow>
            rgb2hsv r g b ! 0 =
              scaled (wrap_hue (js_sub (channel_delta r g b b) (channel_delta r g b g))))
       \<and> (\<not> js_eq (normalized r) (max_c r g b) \<and> js_eq (normalized g) (max_c r g b) \<longrightarrow>
            rgb2hsv r g b ! 0 =
              scaled (wrap_hue (js_sub (js_add (js_div (Fin 1) (Fin 3)) (channel_delta r g b r))
                                       (channel_delta r g b b))))
       \<and> (\<not> js_eq (normalized r) (max_c r g b) \<and> \<not> js_eq (normalized g) (max_c r g b)
            \<and> js_eq (normalized b) (max_c r g b) \<longrightarrow>
            rgb2hsv r g b ! 0 =
              scaled (wrap_hue (js_sub (js_add (js_div (Fin 2) (Fin 3)) (channel_delta r g b g))
                                       (channel_delta r g b r))))"
  using assms
  by (simp add: rgb2hsv_chromatic_r rgb2hsv_chromatic_g rgb2hsv_chromatic_b)

subsection \<open>Channels in \<open>[0, 255]\<close>\<close>

lemma scaled_range:
  assumes "0 \<le> H" and "H \<le> 1"
  shows "\<exists>n. scaled (Fin H) = Fin (of_int n) \<and> 0 \<le> n \<and> n \<le> 255"
  unfolding scaled_def using assms by (rule scale_round_range)

lemma wrap_hue_Fin_range:
  assumes "- 1 \<le> h" and "h \<le> 2"
  shows "\<exists>H. wrap_hue (Fin h) = Fin H \<and> 0 \<le> H \<and> H \<le> 1"
  unfolding wrap_hue_def Let_def using assms by (rule wrap_hue_range)

lemma third_range:
  assumes "0 < c" and "c \<le> 1"
  shows "\<exists>k. js_div (Fin c) (Fin 3) = Fin k \<and> 0 \<le> k \<and> k \<le> 1 \<and> round_mag k = k"
proof -
  have "js_div (Fin c) (Fin 3) = Fin (round_mag (c / 3))"
    using assms by (intro js_div_nonneg pow2_1023_ge) simp_all
  moreover have "0 \<le> round_mag (c / 3)" using assms by (intro round_mag_nonneg) simp
  moreover have "round_mag (c / 3) \<le> 1" using assms by (intro round_mag_le_1) simp_all
  moreover have "round_mag (round_mag (c / 3)) = round_mag (c / 3)"
    using assms by (intro round_mag_idem) simp
  ultimately show ?thesis by blast
qed

lemma two_thirds_range:
  "\<exists>k. js_div (Fin 2) (Fin 3) = Fin k \<and> 0 \<le> k \<and> k \<le> 1 \<and> round_mag k = k"
proof -
  have "js_div (Fin 2) (Fin 3) = Fin (round_mag (2 / 3))"
    by (intro js_div_nonneg pow2_1023_ge) simp_all
  moreover have "0 \<le> round_mag (2 / 3)" by (intro round_mag_nonneg) simp
  moreover have "round_mag (2 / 3) \<le> 1" by (intro round_mag_le_1) simp_all
  moreover have "round_mag (round_mag (2 / 3)) = round_mag (2 / 3)"
    by (intro round_mag_idem) simp
  ultimately show ?thesis by blast
qed

text \<open>\<open>constant + dX - dY\<close> for a constant and two channel deltas in \<open>[0, 1]\<close>.\<close>

lemma offset_hue_range:
  assumes "0 \<le> k" "k \<le> 1" "round_mag k = k"
    and "0 \<le> x" "x \<le> 1" "round_mag x = x"
    and "0 \<le> y" "y \<le> 1" "round_mag y = y"
  shows "\<exists>h. js_sub (js_add (Fin k) (Fin x)) (Fin y) = Fin h \<and> - 1 \<le> h \<and> h \<le> 2"
proof -
  define s where "s = round_mag (k + x)"
  have e: "js_add (Fin k) (Fin x) = Fin s"
    unfolding s_def using assms by (intro js_add_nonneg pow2_1023_ge) simp_all
  have s0: "0 \<le> s" unfolding s_def using assms by (intro round_mag_nonneg) simp
  have s2: "s \<le> 2" unfolding s_def using assms by (intro round_mag_le_2) simp_all
  have ss: "round_mag s = s" unfolding s_def using assms by (intro round_mag_idem) simp
  obtain h where "js_sub (Fin s) (Fin y) = Fin h" "- y \<le> h" "h \<le> s"
    using js_sub_range [OF s0 assms(7) ss assms(9) s2] assms(8) by auto
  then show ?thesis using assms(8) s2 by (auto simp add: e)
qed

lemma plain_hue_range:
  assumes "0 \<le> x" "x \<le> 1" "round_mag x = x"
    and "0 \<le> y" "y \<le> 1" "round_mag y = y"
  shows "\<exists>h. js_sub (Fin x) (Fin y) = Fin h \<and> - 1 \<le> h \<and> h \<le> 2"
proof -
  obtain h where "js_sub (Fin x) (Fin y) = Fin h" "- y \<le> h" "h \<le> x"
    using js_sub_range [OF assms(1,4,3,6)] assms(2,5) by auto
  then show ?thesis using assms(2,5) by auto
qed

text \<open>The quantities of the conversion for channels in \<open>[0, 255]\<close>.\<close>

lemma in_range_parts:
  assumes "0 \<le> r" "r \<le> 255" "0 \<le> g" "g \<le> 255" "0 \<le> b" "b \<le> 255"
  defines "R \<equiv> round_mag (r / 255)" and "G \<equiv> round_mag (g / 255)"
    and "B \<equiv> round_mag (b / 255)"
  defines "mx \<equiv> max (max R G) B" and "mn \<equiv> min (min R G) B"
  shows "normalized (Fin r) = Fin R" "normalized (Fin g) = Fin G" "normalized (Fin b) = Fin B"
    and "max_c (Fin r) (Fin g) (Fin b) = Fin mx"
    and "min_c (Fin r) (Fin g) (Fin b) = Fin mn"
    and "delta (Fin r) (Fin g) (Fin b) = Fin (round_mag (mx - mn))"
    and "0 \<le> mn" "mn \<le> mx" "mx \<le> 1" "round_mag mx = mx"
    and "mx = round_mag (max (max r g) b / 255)"
proof -
  show n: "normalized (Fin r) = Fin R" "normalized (Fin g) = Fin G" "normalized (Fin b) = Fin B"
    unfolding normalized_def R_def G_def B_def
    using assms(1-6) by (simp_all add: normalize_channel)
  show mxe: "max_c (Fin r) (Fin g) (Fin b) = Fin mx"
    by (simp add: max_c_def n math_max_Fin mx_def)
  show mne: "min_c (Fin r) (Fin g) (Fin b) = Fin mn"
    by (simp add: min_c_def n math_min_Fin mn_def)
  have R: "0 \<le> R" "R \<le> 1" unfolding R_def using assms(1,2) by (simp_all add: normalize_channel)
  have G: "0 \<le> G" "G \<le> 1" unfolding G_def using assms(3,4) by (simp_all add: normalize_channel)
  have B: "0 \<le> B" "B \<le> 1" unfolding B_def using assms(5,6) by (simp_all add: normalize_channel)
  show mn0: "0 \<le> mn" using R G B by (simp add: mn_def)
  show mnmx: "mn \<le> mx" by (simp add: mn_def mx_def min_def max_def)
  show mx1: "mx \<le> 1" using R G B by (simp add: mx_def)
  have idem: "round_mag R = R" "round_mag G = G" "round_mag B = B"
    unfolding R_def G_def B_def using assms(1,3,5) by (simp_all add: round_mag_idem)
  show "round_mag mx = mx" using idem by (simp add: mx_def max_def)
  show "delta (Fin r) (Fin g) (Fin b) = Fin (round_mag (mx - mn))"
    unfolding delta_def mxe mne
    using mnmx mn0 mx1 by (intro js_sub_nonneg pow2_1023_ge) simp_all
  have mono: "round_mag (x / 255) \<le> round_mag (y / 255)" if "0 \<le> x" "x \<le> y" for x y
    using that by (intro round_mag_mono) simp_all
  have m2: "max (round_mag (x / 255)) (round_mag (y / 255)) = round_mag (max x y / 255)"
    if "0 \<le> x" "0 \<le> y" for x y
  proof (cases "x \<le> y")
    case True
    then show ?thesis using mono [of x y] that by (simp add: max_def)
  next
    case False
    then show ?thesis using mono [of y x] that by (simp add: max_def)
  qed
  have "max (max R G) B = max (round_mag (max r g / 255)) (round_mag (b / 255))"
    unfolding R_def G_def B_def using assms(1,3) by (simp only: m2)
  also have "\<dots> = round_mag (max (max r g) b / 255)"
    using assms(1,3,5) by (intro m2) simp_all
  finally show "mx = round_mag (max (max r g) b / 255)" by (simp add: mx_def)
qed

lemma in_range_channel_delta:
  assumes "0 \<le> r" "r \<le> 255" "0 \<le> g" "g \<le> 255" "0 \<le> b" "b \<le> 255"
    and "\<not> js_eq (delta (Fin r) (Fin g) (Fin b)) (Fin 0)"
    and "x = r \<or> x = g \<or> x = b"
  shows "\<exists>e. channel_delta (Fin r) (Fin g) (Fin b) (Fin x) = Fin e
              \<and> 0 \<le> e \<and> e \<le> 1 \<and> round_mag e = e"
proof -
  define mx where "mx = max (max (round_mag (r / 255)) (round_mag (g / 255))) (round_mag (b / 255))"
  define mn where "mn = min (min (round_mag (r / 255)) (round_mag (g / 255))) (round_mag (b / 255))"
  define d where "d = round_mag (mx - mn)"
  note p = in_range_parts [OF assms(1-6), folded mx_def mn_def, folded d_def]
  have x: "0 \<le> x" "x \<le> 255" using assms(1-6,8) by auto
  define X where "X = round_mag (x / 255)"
  have nx: "normalized (Fin x) = Fin X"
    unfolding normalized_def X_def using x by (simp add: normalize_channel)
  have X0: "0 \<le> X" unfolding X_def using x by (simp add: normalize_channel)
  have Xmx: "X \<le> mx" and Xmn: "mn \<le> X"
    using assms(8) by (auto simp add: X_def mx_def mn_def)
  have d0: "0 \<le> d" unfolding d_def using p(8) by (intro round_mag_nonneg) simp
  have "d \<noteq> 0" using assms(7) by (simp add: p(6))
  with d0 have dpos: "0 < d" by simp
  have "\<exists>e. js_div (js_add (js_div (js_sub (Fin mx) (Fin X)) (Fin 6)) (js_div (Fin d) (Fin 2)))
               (Fin d) = Fin e \<and> 0 \<le> e \<and> e \<le> 1 \<and> round_mag e = e"
    using X0 Xmx Xmn p(7,8,9) dpos
    by (intro channel_delta_range [where y = "mx - mn"]) (simp_all add: d_def)
  then show ?thesis by (simp add: channel_delta_def p nx)
qed

lemma max3_cases:
  fixes x y z :: rat
  shows "max (max x y) z = x \<or> max (max x y) z = y \<or> max (max x y) z = z"
  by (simp add: max_def)

lemma rgb2hsv_chromatic:
  assumes "\<not> js_eq (delta r g b) (Fin 0)"
  shows "rgb2hsv r g b =
    [scaled (wrap_hue (raw_hue r g b)), scaled (js_div (delta r g b) (max_c r g b)),
     scaled (max_c r g b)]"
  using assms
  by (simp add: rgb2hsv_def Let_def delta_def max_c_def min_c_def normalized_def scaled_def
      channel_delta_def wrap_hue_def raw_hue_def)

lemma in_range_raw_hue:
  assumes "0 \<le> r" "r \<le> 255" "0 \<le> g" "g \<le> 255" "0 \<le> b" "b \<le> 255"
    and "\<not> js_eq (delta (Fin r) (Fin g) (Fin b)) (Fin 0)"
  shows "\<exists>h. raw_hue (Fin r) (Fin g) (Fin b) = Fin h \<and> - 1 \<le> h \<and> h \<le> 2"
proof -
  define mx where "mx = max (max (round_mag (r / 255)) (round_mag (g / 255))) (round_mag (b / 255))"
  note p = in_range_parts [OF assms(1-6), folded mx_def]
  obtain eR where eR: "channel_delta (Fin r) (Fin g) (Fin b) (Fin r) = Fin eR"
      "0 \<le> eR" "eR \<le> 1" "round_mag eR = eR"
    using in_range_channel_delta [OF assms, of r] by auto
  obtain eG where eG: "channel_delta (Fin r) (Fin g) (Fin b) (Fin g) = Fin eG"
      "0 \<le> eG" "eG \<le> 1" "round_mag eG = eG"
    using in_range_channel_delta [OF assms, of g] by auto
  obtain eB where eB: "channel_delta (Fin r) (Fin g) (Fin b) (Fin b) = Fin eB"
      "0 \<le> eB" "eB \<le> 1" "round_mag eB = eB"
    using in_range_channel_delta [OF assms, of b] by auto
  obtain k1 where k1: "js_div (Fin 1) (Fin 3) = Fin k1" "0 \<le> k1" "k1 \<le> 1" "round_mag k1 = k1"
    using third_range [of 1] by auto
  obtain k2 where k2: "js_div (Fin 2) (Fin 3) = Fin k2" "0 \<le> k2" "k2 \<le> 1" "round_mag k2 = k2"
    using two_thirds_range by auto
  show ?thesis
  proof (cases "js_eq (normalized (Fin r)) (max_c (Fin r) (Fin g) (Fin b))")
    case True
    have "\<exists>h. js_sub (Fin eB) (Fin eG) = Fin h \<and> - 1 \<le> h \<and> h \<le> 2"
      using eB eG by (intro plain_hue_range)
    then show ?thesis using True by (simp add: raw_hue_def eB eG)
  next
    case nR: False
    show ?thesis
    proof (cases "js_eq (normalized (Fin g)) (max_c (Fin r) (Fin g) (Fin b))")
      case True
      have "\<exists>h. js_sub (js_add (Fin k1) (Fin eR)) (Fin eB) = Fin h \<and> - 1 \<le> h \<and> h \<le> 2"
        using k1 eR eB by (intro offset_hue_range)
      then show ?thesis using nR True by (simp add: raw_hue_def k1 eR eB)
    next
      case nG: False
      have "round_mag (r / 255) \<noteq> mx" "round_mag (g / 255) \<noteq> mx"
        using nR nG by (simp_all add: p(1,2,4))
      then have "round_mag (b / 255) = mx"
        using max3_cases [of "round_mag (r / 255)" "round_mag (g / 255)" "round_mag (b / 255)"]
        unfolding mx_def by metis
      then have isB: "js_eq (normalized (Fin b)) (max_c (Fin r) (Fin g) (Fin b))"
        by (simp add: p(3,4))
      have "\<exists>h. js_sub (js_add (Fin k2) (Fin eG)) (Fin eR) = Fin h \<and> - 1 \<le> h \<and> h \<le> 2"
        using k2 eG eR by (intro offset_hue_range)
      then show ?thesis using nR nG isB by (simp add: raw_hue_def k2 eG eR)
    qed
  qed
qed

text \<open>
  C3.  For channels in \<open>[0, 255]\<close> the result is a triple of integers in \<open>[0, 255]\<close>.  In
  the chromatic branch the hue before the wrap lies in \<open>[-1, 2]\<close>, so that the single
  conditional wrap (add 1 if it is below 0, then subtract 1 if it is above 1) takes it
  into \<open>[0, 1]\<close>, and that is the value scaled.
\<close>

theorem rgb2hsv_range:
  assumes "0 \<le> r" "r \<le> 255" "0 \<le> g" "g \<le> 255" "0 \<le> b" "b \<le> 255"
  shows "(\<exists>h s v. rgb2hsv (Fin r) (Fin g) (Fin b) = [Fin (of_int h), Fin (of_int s), Fin (of_int v)]
           \<and> 0 \<le> h \<and> h \<le> 255 \<and> 0 \<le> s \<and> s \<le> 255 \<and> 0 \<le> v \<and> v \<le> 255)
       \<and> (\<not> js_eq (delta (Fin r) (Fin g) (Fin b)) (Fin 0) \<longrightarrow>
            (\<exists>h0 H. raw_hue (Fin r) (Fin g) (Fin b) = Fin h0 \<and> - 1 \<le> h0 \<and> h0 \<le> 2
               \<and> wrap_hue (Fin h0) = Fin H \<and> 0 \<le> H \<and> H \<le> 1
               \<and> rgb2hsv (Fin r) (Fin g) (Fin b) ! 0 = scaled (Fin H)))"
proof -
  define mx where "mx = max (max (round_mag (r / 255)) (round_mag (g / 255))) (round_mag (b / 255))"
  define mn where "mn = min (min (round_mag (r / 255)) (round_mag (g / 255))) (round_mag (b / 255))"
  define d where "d = round_mag (mx - mn)"
  note p = in_range_parts [OF assms, folded mx_def mn_def, folded d_def]
  have mx0: "0 \<le> mx" using p(7,8) by linarith
  obtain v where v: "scaled (max_c (Fin r) (Fin g) (Fin b)) = Fin (of_int v)" "0 \<le> v" "v \<le> 255"
    using scaled_range [OF mx0 p(9)] by (auto simp add: p(4))
  obtain z where z: "scaled (Fin 0) = Fin (of_int z)" "0 \<le> z" "z \<le> 255"
    using scaled_range [of 0] by auto
  show ?thesis
  proof (cases "js_eq (delta (Fin r) (Fin g) (Fin b)) (Fin 0)")
    case True
    have "rgb2hsv (Fin r) (Fin g) (Fin b) = [Fin (of_int z), Fin (of_int z), Fin (of_int v)]"
      using rgb2hsv_achromatic [OF True] by (simp add: z v)
    then show ?thesis using True z v by blast
  next
    case False
    have d0: "0 \<le> d" unfolding d_def using p(8) by (intro round_mag_nonneg) simp
    have "d \<noteq> 0" using False by (simp add: p(6))
    with d0 have dpos: "0 < d" by simp
    have dmx: "d \<le> mx"
      unfolding d_def using p(7,8,10) by (intro round_mag_le) simp_all
    have mxpos: "0 < mx" using dpos dmx by linarith
    have q0: "0 \<le> d / mx" and q1: "d / mx \<le> 1" using d0 dmx mxpos by simp_all
    have "d / mx \<le> 65536" using q1 by linarith
    then have "js_div (Fin d) (Fin mx) = Fin (round_mag (d / mx))"
      using d0 mxpos by (intro js_div_nonneg pow2_1023_ge)
    moreover have "0 \<le> round_mag (d / mx)" using q0 by (rule round_mag_nonneg)
    moreover have "round_mag (d / mx) \<le> 1" using q0 q1 by (rule round_mag_le_1)
    ultimately obtain s where
      s: "scaled (js_div (delta (Fin r) (Fin g) (Fin b)) (max_c (Fin r) (Fin g) (Fin b))) =
            Fin (of_int s)" "0 \<le> s" "s \<le> 255"
      using scaled_range [of "round_mag (d / mx)"] by (auto simp add: p(4,6))
    obtain h0 where h0: "raw_hue (Fin r) (Fin g) (Fin b) = Fin h0" "- 1 \<le> h0" "h0 \<le> 2"
      using in_range_raw_hue [OF assms False] by blast
    obtain H where H: "wrap_hue (Fin h0) = Fin H" "0 \<le> H" "H \<le> 1"
      using wrap_hue_Fin_range [OF h0(2,3)] by blast
    obtain n where n: "scaled (Fin H) = Fin (of_int n)" "0 \<le> n" "n \<le> 255"
      using scaled_range [OF H(2,3)] by blast
    have eq: "rgb2hsv (Fin r) (Fin g) (Fin b) = [Fin (of_int n), Fin (of_int s), Fin (of_int v)]"
      using rgb2hsv_chromatic [OF False] by (simp add: h0 H n s v)
    have c1: "\<exists>h s v. rgb2hsv (Fin r) (Fin g) (Fin b) = [Fin (of_int h), Fin (of_int s), Fin (of_int v)]
           \<and> 0 \<le> h \<and> h \<le> 255 \<and> 0 \<le> s \<and> s \<le> 255 \<and> 0 \<le> v \<and> v \<le> 255"
      using eq n s v by blast
    have "rgb2hsv (Fin r) (Fin g) (Fin b) ! 0 = scaled (Fin H)"
      using eq n by simp
    then have c2: "\<exists>h0 H. raw_hue (Fin r) (Fin g) (Fin b) = Fin h0 \<and> - 1 \<le> h0 \<and> h0 \<le> 2
               \<and> wrap_hue (Fin h0) = Fin H \<and> 0 \<le> H \<and> H \<le> 1
               \<and> rgb2hsv (Fin r) (Fin g) (Fin b) ! 0 = scaled (Fin H)"
      using h0 H by blast
    show ?thesis using c1 c2 by blast
  qed
qed

subsection \<open>The value channel\<close>

text \<open>The two roundings at \<open>0.49999999999999994\<close>, the largest binary64 value below \<open>0.5\<close>.\<close>

lemma half_below_normalized:
  "round_mag (9007199254740991 / 18014398509481984 / 255) =
     282578800148737 / 144115188075855872"
proof -
  have "round_mag (9007199254740991 / 18014398509481984 / 255) =
      of_int 4521260802379792 * pow2 (- 9 - 52)"
    by (rule round_mag_eval) (simp_all add: pow2_eval)
  also have "\<dots> = 282578800148737 / 144115188075855872"
    by (simp add: pow2_eval)
  finally show ?thesis .
qed

lemma half_below_scaled:
  "round_mag (282578800148737 / 144115188075855872 * 255) = 1 / 2"
proof -
  have "round_mag (282578800148737 / 144115188075855872 * 255) =
      of_int 9007199254740992 * pow2 (- 2 - 52)"
    by (rule round_mag_eval) (simp_all add: pow2_eval)
  also have "\<dots> = 1 / 2"
    by (simp add: pow2_eval)
  finally show ?thesis .
qed

lemma rgb2hsv_third: "rgb2hsv r g b ! 2 = scaled (max_c r g b)"
  by (simp add: rgb2hsv_def Let_def max_c_def normalized_def scaled_def)

lemma scaled_Fin:
  assumes "0 \<le> x" and "x \<le> 1"
  shows "scaled (Fin x) = Fin (of_int \<lfloor>round_mag (x * 255) + 1 / 2\<rfloor>)"
proof -
  have hq: "x * 255 \<le> 255" using assms by simp
  have "js_mul (Fin x) (Fin 255) = Fin (round_mag (x * 255))"
    using assms hq by (intro js_mul_nonneg pow2_1023_ge) simp_all
  moreover have "0 \<le> round_mag (x * 255)" using assms by (intro round_mag_nonneg) simp
  ultimately show ?thesis by (simp add: scaled_def)
qed

text \<open>Dividing by 255 and multiplying by 255 again moves a channel by at most \<open>pow2 (-45)\<close>.\<close>

lemma value_round_trip:
  assumes "0 \<le> m" and "m \<le> 255"
  shows "\<bar>round_mag (round_mag (m / 255) * 255) - m\<bar> \<le> pow2 (- 45)"
proof -
  define a where "a = round_mag (m / 255)"
  have a0: "0 \<le> a" unfolding a_def using assms by (intro round_mag_nonneg) simp
  have a1: "a \<le> 1" unfolding a_def using assms by (intro round_mag_le_1) simp_all
  have "\<bar>a - m / 255\<bar> \<le> pow2 (- 1 - 53)"
    unfolding a_def using assms by (intro round_mag_abs_error) simp_all
  then have e1: "\<bar>a - m / 255\<bar> \<le> pow2 (- 54)" by simp
  have "a * 255 \<le> pow2 (7 + 1)" using a1 by (simp add: pow2_numeral)
  then have "\<bar>round_mag (a * 255) - a * 255\<bar> \<le> pow2 (7 - 53)"
    using a0 by (intro round_mag_abs_error) simp_all
  then have e2: "\<bar>round_mag (a * 255) - a * 255\<bar> \<le> pow2 (- 46)" by simp
  have "\<bar>a * 255 - m\<bar> = 255 * \<bar>a - m / 255\<bar>" by (simp add: abs_if)
  also have "\<dots> \<le> 255 * pow2 (- 54)" using e1 by simp
  also have "\<dots> \<le> 256 * pow2 (- 54)" by simp
  also have "\<dots> = pow2 (- 46)" using pow2_add [of 8 "- 54"] by (simp add: pow2_numeral)
  finally have e3: "\<bar>a * 255 - m\<bar> \<le> pow2 (- 46)" .
  have "pow2 (- 46) + pow2 (- 46) = pow2 (- 45)" using pow2_Suc [of "- 46"] by simp
  then show ?thesis using e2 e3 unfolding a_def by linarith
qed

lemma pow2_m45_small: "pow2 (- 45) < 1 / 2"
proof -
  have "pow2 (- 45) < pow2 (- 1)" by simp
  then show ?thesis by (simp add: pow2_minus_1)
qed

lemma floor_stable:
  assumes "\<bar>v - m\<bar> \<le> e" and "\<lfloor>m + 1 / 2 - e\<rfloor> = \<lfloor>m + 1 / 2 + e\<rfloor>"
  shows "\<lfloor>v + 1 / 2\<rfloor> = \<lfloor>m + 1 / 2\<rfloor>"
proof -
  have lo: "\<lfloor>m + 1 / 2 - e\<rfloor> \<le> \<lfloor>v + 1 / 2\<rfloor>" using assms(1) by (intro floor_mono) linarith
  have hi: "\<lfloor>v + 1 / 2\<rfloor> \<le> \<lfloor>m + 1 / 2 + e\<rfloor>" using assms(1) by (intro floor_mono) linarith
  have e0: "0 \<le> e" using assms(1) by linarith
  have lo': "\<lfloor>m + 1 / 2 - e\<rfloor> \<le> \<lfloor>m + 1 / 2\<rfloor>" using e0 by (intro floor_mono) linarith
  have hi': "\<lfloor>m + 1 / 2\<rfloor> \<le> \<lfloor>m + 1 / 2 + e\<rfloor>" using e0 by (intro floor_mono) linarith
  show ?thesis using lo hi lo' hi' assms(2) by linarith
qed

lemma floor_stable_int:
  "\<lfloor>rat_of_int n + 1 / 2 - pow2 (- 45)\<rfloor> = \<lfloor>rat_of_int n + 1 / 2 + pow2 (- 45)\<rfloor>"
proof -
  have "\<lfloor>rat_of_int n + 1 / 2 - pow2 (- 45)\<rfloor> = n"
    using pow2_m45_small pow2_pos [of "- 45"] by (intro floor_unique) linarith+
  moreover have "\<lfloor>rat_of_int n + 1 / 2 + pow2 (- 45)\<rfloor> = n"
    using pow2_m45_small pow2_pos [of "- 45"] by (intro floor_unique) linarith+
  ultimately show ?thesis by simp
qed

lemma in_range_value:
  assumes "0 \<le> r" "r \<le> 255" "0 \<le> g" "g \<le> 255" "0 \<le> b" "b \<le> 255"
  shows "rgb2hsv (Fin r) (Fin g) (Fin b) ! 2 =
    Fin (of_int \<lfloor>round_mag (round_mag (max (max r g) b / 255) * 255) + 1 / 2\<rfloor>)"
proof -
  note p = in_range_parts [OF assms]
  have "rgb2hsv (Fin r) (Fin g) (Fin b) ! 2 = scaled (Fin (round_mag (max (max r g) b / 255)))"
    using p(4) p(11) by (simp add: rgb2hsv_third)
  also have "\<dots> = Fin (of_int \<lfloor>round_mag (round_mag (max (max r g) b / 255) * 255) + 1 / 2\<rfloor>)"
    using p(7,8,9) unfolding p(11) by (intro scaled_Fin) linarith+
  finally show ?thesis .
qed

lemma floor_half: "\<lfloor>1 / 2 :: rat\<rfloor> = 0"
  by (rule floor_unique) simp_all

lemma in_range_value_cases:
  assumes "0 \<le> r" "r \<le> 255" "0 \<le> g" "g \<le> 255" "0 \<le> b" "b \<le> 255"
  shows "\<exists>v. \<bar>v - max (max r g) b\<bar> \<le> pow2 (- 45)
            \<and> rgb2hsv (Fin r) (Fin g) (Fin b) ! 2 = math_round (Fin v)"
    and "\<lfloor>max (max r g) b + 1 / 2 - pow2 (- 45)\<rfloor> = \<lfloor>max (max r g) b + 1 / 2 + pow2 (- 45)\<rfloor>
            \<Longrightarrow> rgb2hsv (Fin r) (Fin g) (Fin b) ! 2 = math_round (Fin (max (max r g) b))"
    and "max (max r g) b = of_int n \<Longrightarrow> rgb2hsv (Fin r) (Fin g) (Fin b) ! 2 = Fin (of_int n)"
proof -
  define m where "m = max (max r g) b"
  define v where "v = round_mag (round_mag (m / 255) * 255)"
  have m0: "0 \<le> m" and m1: "m \<le> 255" using assms by (simp_all add: m_def)
  have err: "\<bar>v - m\<bar> \<le> pow2 (- 45)" unfolding v_def using m0 m1 by (rule value_round_trip)
  have v0: "0 \<le> v" unfolding v_def using m0 by (intro round_mag_nonneg mult_nonneg_nonneg) simp_all
  have val: "rgb2hsv (Fin r) (Fin g) (Fin b) ! 2 = Fin (of_int \<lfloor>v + 1 / 2\<rfloor>)"
    unfolding v_def m_def using assms by (rule in_range_value)
  have rv: "math_round (Fin v) = Fin (of_int \<lfloor>v + 1 / 2\<rfloor>)" using v0 by simp
  have rm: "math_round (Fin m) = Fin (of_int \<lfloor>m + 1 / 2\<rfloor>)" using m0 by simp
  show "\<exists>v. \<bar>v - max (max r g) b\<bar> \<le> pow2 (- 45)
            \<and> rgb2hsv (Fin r) (Fin g) (Fin b) ! 2 = math_round (Fin v)"
  proof (intro exI [of _ v] conjI)
    show "\<bar>v - max (max r g) b\<bar> \<le> pow2 (- 45)" using err by (simp add: m_def)
    show "rgb2hsv (Fin r) (Fin g) (Fin b) ! 2 = math_round (Fin v)" unfolding rv by (rule val)
  qed
  have c2: "rgb2hsv (Fin r) (Fin g) (Fin b) ! 2 = math_round (Fin m)"
    if "\<lfloor>m + 1 / 2 - pow2 (- 45)\<rfloor> = \<lfloor>m + 1 / 2 + pow2 (- 45)\<rfloor>"
    unfolding rm val using floor_stable [OF err that] by simp
  then show "\<lfloor>max (max r g) b + 1 / 2 - pow2 (- 45)\<rfloor> = \<lfloor>max (max r g) b + 1 / 2 + pow2 (- 45)\<rfloor>
            \<Longrightarrow> rgb2hsv (Fin r) (Fin g) (Fin b) ! 2 = math_round (Fin (max (max r g) b))"
    by (simp add: m_def)
  show "rgb2hsv (Fin r) (Fin g) (Fin b) ! 2 = Fin (of_int n)" if "max (max r g) b = of_int n"
  proof -
    have mn: "m = of_int n" using that by (simp add: m_def)
    have "\<lfloor>rat_of_int n + 1 / 2\<rfloor> = n" by (intro floor_unique) simp_all
    then have "math_round (Fin m) = Fin (of_int n)" unfolding rm mn by simp
    then show ?thesis using c2 floor_stable_int [of n] mn by simp
  qed
qed

text \<open>The binary64 value \<open>(m / 255) * 255\<close> that \<open>Math.round\<close> is applied to.\<close>

lemma value_double:
  assumes "0 \<le> m" and "m \<le> 255"
  shows "js_mul (js_div (Fin m) (Fin 255)) (Fin 255) =
           Fin (round_mag (round_mag (m / 255) * 255))"
proof -
  note n = normalize_channel [OF assms]
  have hq: "round_mag (m / 255) * 255 \<le> 255" using n(3) by simp
  show ?thesis unfolding n(1) using n(2) hq by (intro js_mul_nonneg pow2_1023_ge) simp_all
qed

lemma in_range_value_double:
  assumes "0 \<le> r" "r \<le> 255" "0 \<le> g" "g \<le> 255" "0 \<le> b" "b \<le> 255"
  shows "rgb2hsv (Fin r) (Fin g) (Fin b) ! 2 =
           math_round (js_mul (js_div (Fin (max (max r g) b)) (Fin 255)) (Fin 255))"
    and "\<exists>v. js_mul (js_div (Fin (max (max r g) b)) (Fin 255)) (Fin 255) = Fin v
            \<and> \<bar>v - max (max r g) b\<bar> \<le> pow2 (- 45)"
proof -
  define m where "m = max (max r g) b"
  define v where "v = round_mag (round_mag (m / 255) * 255)"
  have m0: "0 \<le> m" and m1: "m \<le> 255" using assms by (simp_all add: m_def)
  have d: "js_mul (js_div (Fin m) (Fin 255)) (Fin 255) = Fin v"
    unfolding v_def using m0 m1 by (rule value_double)
  have err: "\<bar>v - m\<bar> \<le> pow2 (- 45)" unfolding v_def using m0 m1 by (rule value_round_trip)
  have v0: "0 \<le> v" unfolding v_def using m0 by (intro round_mag_nonneg mult_nonneg_nonneg) simp_all
  have val: "rgb2hsv (Fin r) (Fin g) (Fin b) ! 2 = Fin (of_int \<lfloor>v + 1 / 2\<rfloor>)"
    unfolding v_def m_def using assms by (rule in_range_value)
  have rv: "math_round (Fin v) = Fin (of_int \<lfloor>v + 1 / 2\<rfloor>)" using v0 by simp
  show "rgb2hsv (Fin r) (Fin g) (Fin b) ! 2 =
           math_round (js_mul (js_div (Fin (max (max r g) b)) (Fin 255)) (Fin 255))"
    using d val rv by (simp only: m_def)
  show "\<exists>v. js_mul (js_div (Fin (max (max r g) b)) (Fin 255)) (Fin 255) = Fin v
            \<and> \<bar>v - max (max r g) b\<bar> \<le> pow2 (- 45)"
    using d err unfolding m_def by blast
qed

text \<open>
  C2, as the code has it.  For channels in \<open>[0, 255]\<close> with largest channel \<open>m\<close>, the
  third component is \<open>Math.round\<close> of the binary64 value \<open>(m / 255) * 255\<close>, the quotient
  and the product each rounded to binary64.  That value is finite and lies within
  \<open>pow2 (-45)\<close> of \<open>m\<close>, so the component is \<open>Math.round(m)\<close> whenever no rounding
  boundary \<open>n + 1/2\<close> lies within \<open>pow2 (-45)\<close> of \<open>m\<close>, in particular whenever \<open>m\<close>
  is an integer.
\<close>

theorem rgb2hsv_value_is_rounded_max:
  assumes "0 \<le> r" "r \<le> 255" "0 \<le> g" "g \<le> 255" "0 \<le> b" "b \<le> 255"
  shows "rgb2hsv (Fin r) (Fin g) (Fin b) ! 2 =
           math_round (js_mul (js_div (Fin (max (max r g) b)) (Fin 255)) (Fin 255))
       \<and> (\<exists>v. js_mul (js_div (Fin (max (max r g) b)) (Fin 255)) (Fin 255) = Fin v
            \<and> \<bar>v - max (max r g) b\<bar> \<le> pow2 (- 45))
       \<and> (\<lfloor>max (max r g) b + 1 / 2 - pow2 (- 45)\<rfloor> = \<lfloor>max (max r g) b + 1 / 2 + pow2 (- 45)\<rfloor>
            \<longrightarrow> rgb2hsv (Fin r) (Fin g) (Fin b) ! 2 = math_round (Fin (max (max r g) b)))
       \<and> (\<forall>n. max (max r g) b = of_int n
            \<longrightarrow> rgb2hsv (Fin r) (Fin g) (Fin b) ! 2 = Fin (of_int n))"
  using in_range_value_double [OF assms] in_range_value_cases(2,3) [OF assms] by blast

text \<open>
  C5, as the code has it.  For \<open>k\<close> in \<open>[0, 255]\<close>, \<open>rgb2hsv(k, k, k)\<close> is
  \<open>[0, 0, Math.round((k / 255) * 255)]\<close>, the quotient and the product each rounded to
  binary64.  That value is finite and lies within \<open>pow2 (-45)\<close> of \<open>k\<close>, so the result
  is \<open>[0, 0, Math.round(k)]\<close> whenever no rounding boundary \<open>n + 1/2\<close> lies within
  \<open>pow2 (-45)\<close> of \<open>k\<close>, in particular whenever \<open>k\<close> is an integer.
\<close>

theorem rgb2hsv_gray:
  assumes "0 \<le> k" "k \<le> 255"
  shows "rgb2hsv (Fin k) (Fin k) (Fin k) =
           [Fin 0, Fin 0, math_round (js_mul (js_div (Fin k) (Fin 255)) (Fin 255))]
       \<and> (\<exists>v. js_mul (js_div (Fin k) (Fin 255)) (Fin 255) = Fin v \<and> \<bar>v - k\<bar> \<le> pow2 (- 45))
       \<and> (\<lfloor>k + 1 / 2 - pow2 (- 45)\<rfloor> = \<lfloor>k + 1 / 2 + pow2 (- 45)\<rfloor>
            \<longrightarrow> rgb2hsv (Fin k) (Fin k) (Fin k) = [Fin 0, Fin 0, math_round (Fin k)])
       \<and> (\<forall>n. k = of_int n \<longrightarrow> rgb2hsv (Fin k) (Fin k) (Fin k) = [Fin 0, Fin 0, Fin (of_int n)])"
proof -
  note p = in_range_parts [OF assms assms assms]
  have "js_eq (delta (Fin k) (Fin k) (Fin k)) (Fin 0)" by (simp add: p(6))
  then have a: "rgb2hsv (Fin k) (Fin k) (Fin k) =
      [scaled (Fin 0), scaled (Fin 0), scaled (max_c (Fin k) (Fin k) (Fin k))]"
    by (rule rgb2hsv_achromatic)
  have z: "scaled (Fin 0) = Fin 0" using scaled_Fin [of 0] by (simp add: floor_half)
  have eq: "rgb2hsv (Fin k) (Fin k) (Fin k) = [Fin 0, Fin 0, rgb2hsv (Fin k) (Fin k) (Fin k) ! 2]"
    using a by (simp add: z rgb2hsv_third)
  have c0: "rgb2hsv (Fin k) (Fin k) (Fin k) =
           [Fin 0, Fin 0, math_round (js_mul (js_div (Fin k) (Fin 255)) (Fin 255))]"
    using in_range_value_double(1) [OF assms assms assms] eq by simp
  have c1: "\<exists>v. js_mul (js_div (Fin k) (Fin 255)) (Fin 255) = Fin v \<and> \<bar>v - k\<bar> \<le> pow2 (- 45)"
    using in_range_value_double(2) [OF assms assms assms] by simp
  have c2: "rgb2hsv (Fin k) (Fin k) (Fin k) = [Fin 0, Fin 0, math_round (Fin k)]"
    if "\<lfloor>k + 1 / 2 - pow2 (- 45)\<rfloor> = \<lfloor>k + 1 / 2 + pow2 (- 45)\<rfloor>"
    using in_range_value_cases(2) [OF assms assms assms] that eq by simp
  have c3: "rgb2hsv (Fin k) (Fin k) (Fin k) = [Fin 0, Fin 0, Fin (of_int n)]" if "k = of_int n" for n
    using in_range_value_cases(3) [OF assms assms assms, of n] that eq by simp
  show ?thesis using c0 c1 c2 c3 by blast
qed

subsection \<open>Worked values\<close>

lemma ex_magenta: "rgb2hsv (Fin 255) (Fin 0) (Fin 255) = [Fin 213, Fin 255, Fin 255]"
  by code_simp

lemma rgb2hsv_example: "rgb2hsv (Fin 255) (Fin 204) (Fin 0) = [Fin 34, Fin 255, Fin 255]"
  by code_simp

lemma ex_cyan: "rgb2hsv (Fin 0) (Fin 255) (Fin 255) = [Fin 128, Fin 255, Fin 255]"
  by code_simp

lemma ex_blue: "rgb2hsv (Fin 0) (Fin 0) (Fin 255) = [Fin 170, Fin 255, Fin 255]"
  by code_simp

lemma ex_magenta_parts:
  "\<not> js_eq (delta (Fin 255) (Fin 0) (Fin 255)) (Fin 0)"
  "js_eq (normalized (Fin 255)) (max_c (Fin 255) (Fin 0) (Fin 255))"
  by code_simp+

lemma ex_cyan_parts:
  "\<not> js_eq (delta (Fin 0) (Fin 255) (Fin 255)) (Fin 0)"
  "\<not> js_eq (normalized (Fin 0)) (max_c (Fin 0) (Fin 255) (Fin 255))"
  "js_eq (normalized (Fin 255)) (max_c (Fin 0) (Fin 255) (Fin 255))"
  by code_simp+

lemma ex_blue_parts:
  "\<not> js_eq (delta (Fin 0) (Fin 0) (Fin 255)) (Fin 0)"
  "\<not> js_eq (normalized (Fin 0)) (max_c (Fin 0) (Fin 0) (Fin 255))"
  "js_eq (normalized (Fin 255)) (max_c (Fin 0) (Fin 0) (Fin 255))"
  by code_simp+

text \<open>At cyan the green and the blue channel tie; the blue formula would give 127.\<close>

lemma ex_cyan_blue_formula:
  "scaled (wrap_hue (js_sub (js_add (js_div (Fin 2) (Fin 3))
                                    (channel_delta (Fin 0) (Fin 255) (Fin 255) (Fin 255)))
                            (channel_delta (Fin 0) (Fin 255) (Fin 255) (Fin 0)))) = Fin 127"
  by code_simp

theorem rgb2hsv_branch_order_witness:
  "\<not> js_eq (delta (Fin 255) (Fin 0) (Fin 255)) (Fin 0)
   \<and> js_eq (normalized (Fin 255)) (max_c (Fin 255) (Fin 0) (Fin 255))
   \<and> scaled (wrap_hue (js_sub (channel_delta (Fin 255) (Fin 0) (Fin 255) (Fin 255))
                               (channel_delta (Fin 255) (Fin 0) (Fin 255) (Fin 0)))) = Fin 213
   \<and> \<not> js_eq (delta (Fin 0) (Fin 255) (Fin 255)) (Fin 0)
   \<and> \<not> js_eq (normalized (Fin 0)) (max_c (Fin 0) (Fin 255) (Fin 255))
   \<and> js_eq (normalized (Fin 255)) (max_c (Fin 0) (Fin 255) (Fin 255))
   \<and> scaled (wrap_hue (js_sub (js_add (js_div (Fin 1) (Fin 3))
                                    (channel_delta (Fin 0) (Fin 255) (Fin 255) (Fin 0)))
                            (channel_delta (Fin 0) (Fin 255) (Fin 255) (Fin 255)))) = Fin 128
   \<and> \<not> js_eq (delta (Fin 0) (Fin 0) (Fin 255)) (Fin 0)
   \<and> \<not> js_eq (normalized (Fin 0)) (max_c (Fin 0) (Fin 0) (Fin 255))
   \<and> js_eq (normalized (Fin 255)) (max_c (Fin 0) (Fin 0) (Fin 255))
   \<and> scaled (wrap_hue (js_sub (js_add (js_div (Fin 2) (Fin 3))
                                    (channel_delta (Fin 0) (Fin 0) (Fin 255) (Fin 0)))
                            (channel_delta (Fin 0) (Fin 0) (Fin 255) (Fin 0)))) = Fin 170"
  using rgb2hsv_branch_order [of "Fin 255" "Fin 0" "Fin 255"]
    rgb2hsv_branch_order [of "Fin 0" "Fin 255" "Fin 255"]
    rgb2hsv_branch_order [of "Fin 0" "Fin 0" "Fin 255"]
  by (simp add: ex_magenta ex_cyan ex_blue ex_magenta_parts ex_cyan_parts ex_blue_parts)

lemma rgb2hsv_example_chromatic:
  "\<not> js_eq (delta (Fin 255) (Fin 204) (Fin 0)) (Fin 0)"
  by code_simp

theorem rgb2hsv_range_witness:
  "(0::rat) \<le> 255 \<and> (255::rat) \<le> 255 \<and> (0::rat) \<le> 204 \<and> (204::rat) \<le> 255 \<and> (0::rat) \<le> 0
   \<and> \<not> js_eq (delta (Fin 255) (Fin 204) (Fin 0)) (Fin 0)
   \<and> rgb2hsv (Fin 255) (Fin 204) (Fin 0) = [Fin (of_int 34), Fin (of_int 255), Fin (of_int 255)]
   \<and> (\<exists>h0 H. raw_hue (Fin 255) (Fin 204) (Fin 0) = Fin h0 \<and> - 1 \<le> h0 \<and> h0 \<le> 2
         \<and> wrap_hue (Fin h0) = Fin H \<and> 0 \<le> H \<and> H \<le> 1 \<and> scaled (Fin H) = Fin (of_int 34))"
  using rgb2hsv_range [of 255 204 0] rgb2hsv_example_chromatic
  by (simp add: rgb2hsv_example) metis

text \<open>The two roundings at \<open>0.25\<close>.\<close>

lemma quarter_normalized:
  "round_mag (1 / 4 / 255) = 282578800148737 / 288230376151711744"
proof -
  have "round_mag (1 / 4 / 255) = of_int 4521260802379792 * pow2 (- 10 - 52)"
    by (rule round_mag_eval) (simp_all add: pow2_eval)
  also have "\<dots> = 282578800148737 / 288230376151711744"
    by (simp add: pow2_eval)
  finally show ?thesis .
qed

lemma quarter_scaled:
  "round_mag (282578800148737 / 288230376151711744 * 255) = 1 / 4"
proof -
  have "round_mag (282578800148737 / 288230376151711744 * 255) =
      of_int 9007199254740992 * pow2 (- 3 - 52)"
    by (rule round_mag_eval) (simp_all add: pow2_eval)
  also have "\<dots> = 1 / 4"
    by (simp add: pow2_eval)
  finally show ?thesis .
qed

lemma quarter_double: "js_mul (js_div (Fin (1 / 4)) (Fin 255)) (Fin 255) = Fin (1 / 4)"
proof -
  have "js_mul (js_div (Fin (1 / 4)) (Fin 255)) (Fin 255) =
      Fin (round_mag (round_mag (1 / 4 / 255) * 255))"
    by (rule value_double) simp_all
  then show ?thesis by (simp only: quarter_normalized quarter_scaled)
qed

lemma half_below_double:
  "js_mul (js_div (Fin (9007199254740991 / 18014398509481984)) (Fin 255)) (Fin 255) = Fin (1 / 2)"
proof -
  have "js_mul (js_div (Fin (9007199254740991 / 18014398509481984)) (Fin 255)) (Fin 255) =
      Fin (round_mag (round_mag (9007199254740991 / 18014398509481984 / 255) * 255))"
    by (rule value_double) simp_all
  then show ?thesis by (simp only: half_below_normalized half_below_scaled)
qed

lemma quarter_stable:
  "\<lfloor>1 / 4 + 1 / 2 - pow2 (- 45) :: rat\<rfloor> = \<lfloor>1 / 4 + 1 / 2 + pow2 (- 45)\<rfloor>"
proof -
  have "\<lfloor>1 / 4 + 1 / 2 - pow2 (- 45) :: rat\<rfloor> = 0"
    by (rule floor_unique) (simp_all add: pow2_eval)
  moreover have "\<lfloor>1 / 4 + 1 / 2 + pow2 (- 45) :: rat\<rfloor> = 0"
    by (rule floor_unique) (simp_all add: pow2_eval)
  ultimately show ?thesis by simp
qed

lemma math_round_quarter: "math_round (Fin (1 / 4)) = Fin 0"
proof -
  have "\<lfloor>1 / 4 + 1 / 2 :: rat\<rfloor> = 0" by (rule floor_unique) simp_all
  then show ?thesis by simp
qed

lemma math_round_half: "math_round (Fin (1 / 2)) = Fin 1"
proof -
  have "\<lfloor>1 / 2 + 1 / 2 :: rat\<rfloor> = 1" by simp
  then show ?thesis by simp
qed

theorem rgb2hsv_value_is_rounded_max_witness:
  "(0::rat) \<le> 255 \<and> (255::rat) \<le> 255 \<and> (0::rat) \<le> 204 \<and> (204::rat) \<le> 255 \<and> (0::rat) \<le> 0
   \<and> max (max 255 204) 0 = rat_of_int 255
   \<and> rgb2hsv (Fin 255) (Fin 204) (Fin 0) ! 2 = Fin (of_int 255)
   \<and> (0::rat) \<le> 1 / 8 \<and> (1 / 8 :: rat) \<le> 255 \<and> (0::rat) \<le> 1 / 4 \<and> (1 / 4 :: rat) \<le> 255
   \<and> max (max 0 (1 / 8)) (1 / 4) = (1 / 4 :: rat)
   \<and> \<lfloor>1 / 4 + 1 / 2 - pow2 (- 45) :: rat\<rfloor> = \<lfloor>1 / 4 + 1 / 2 + pow2 (- 45)\<rfloor>
   \<and> rgb2hsv (Fin 0) (Fin (1 / 8)) (Fin (1 / 4)) ! 2 =
        math_round (js_mul (js_div (Fin (1 / 4)) (Fin 255)) (Fin 255))
   \<and> js_mul (js_div (Fin (1 / 4)) (Fin 255)) (Fin 255) = Fin (1 / 4)
   \<and> rgb2hsv (Fin 0) (Fin (1 / 8)) (Fin (1 / 4)) ! 2 = math_round (Fin (1 / 4))
   \<and> math_round (Fin (1 / 4)) = Fin 0
   \<and> (0::rat) \<le> 9007199254740991 / 18014398509481984
   \<and> (9007199254740991 / 18014398509481984 :: rat) \<le> 255
   \<and> max (max (1 / 8) (9007199254740991 / 18014398509481984)) 0 =
        (9007199254740991 / 18014398509481984 :: rat)
   \<and> rgb2hsv (Fin (1 / 8)) (Fin (9007199254740991 / 18014398509481984)) (Fin 0) ! 2 =
        math_round (js_mul (js_div (Fin (9007199254740991 / 18014398509481984)) (Fin 255)) (Fin 255))
   \<and> js_mul (js_div (Fin (9007199254740991 / 18014398509481984)) (Fin 255)) (Fin 255) = Fin (1 / 2)
   \<and> math_round (Fin (1 / 2)) = Fin 1"
proof -
  note d = rgb2hsv_value_is_rounded_max [THEN conjunct1]
  note st = rgb2hsv_value_is_rounded_max [THEN conjunct2, THEN conjunct2, THEN conjunct1, rule_format]
  note it = rgb2hsv_value_is_rounded_max [THEN conjunct2, THEN conjunct2, THEN conjunct2, rule_format]
  have i: "max (max 255 204) 0 = rat_of_int 255" by simp
  have iv: "rgb2hsv (Fin 255) (Fin 204) (Fin 0) ! 2 = Fin (of_int 255)"
    by (rule it) simp_all
  have q: "max (max 0 (1 / 8)) (1 / 4) = (1 / 4 :: rat)" by simp
  have "rgb2hsv (Fin 0) (Fin (1 / 8)) (Fin (1 / 4)) ! 2 =
        math_round (js_mul (js_div (Fin (max (max 0 (1 / 8)) (1 / 4))) (Fin 255)) (Fin 255))"
    by (rule d) simp_all
  then have qd: "rgb2hsv (Fin 0) (Fin (1 / 8)) (Fin (1 / 4)) ! 2 =
        math_round (js_mul (js_div (Fin (1 / 4)) (Fin 255)) (Fin 255))"
    by (simp only: q)
  have qs: "\<lfloor>max (max 0 (1 / 8)) (1 / 4) + 1 / 2 - pow2 (- 45) :: rat\<rfloor> =
        \<lfloor>max (max 0 (1 / 8)) (1 / 4) + 1 / 2 + pow2 (- 45)\<rfloor>"
    using quarter_stable by (simp only: q)
  have "rgb2hsv (Fin 0) (Fin (1 / 8)) (Fin (1 / 4)) ! 2 =
        math_round (Fin (max (max 0 (1 / 8)) (1 / 4)))"
    by (rule st [OF _ _ _ _ _ _ qs]) simp_all
  then have qr: "rgb2hsv (Fin 0) (Fin (1 / 8)) (Fin (1 / 4)) ! 2 = math_round (Fin (1 / 4))"
    by (simp only: q)
  have h: "max (max (1 / 8) (9007199254740991 / 18014398509481984)) 0 =
        (9007199254740991 / 18014398509481984 :: rat)" by simp
  have "rgb2hsv (Fin (1 / 8)) (Fin (9007199254740991 / 18014398509481984)) (Fin 0) ! 2 =
        math_round (js_mul (js_div (Fin (max (max (1 / 8) (9007199254740991 / 18014398509481984)) 0))
          (Fin 255)) (Fin 255))"
    by (rule d) simp_all
  then have hd: "rgb2hsv (Fin (1 / 8)) (Fin (9007199254740991 / 18014398509481984)) (Fin 0) ! 2 =
        math_round (js_mul (js_div (Fin (9007199254740991 / 18014398509481984)) (Fin 255)) (Fin 255))"
    by (simp only: h)
  have r: "(0::rat) \<le> 255 \<and> (255::rat) \<le> 255 \<and> (0::rat) \<le> 204 \<and> (204::rat) \<le> 255 \<and> (0::rat) \<le> 0
   \<and> (0::rat) \<le> 1 / 8 \<and> (1 / 8 :: rat) \<le> 255 \<and> (0::rat) \<le> 1 / 4 \<and> (1 / 4 :: rat) \<le> 255
   \<and> (0::rat) \<le> 9007199254740991 / 18014398509481984
   \<and> (9007199254740991 / 18014398509481984 :: rat) \<le> 255" by simp
  show ?thesis
    using r i iv q quarter_stable qd quarter_double qr math_round_quarter h hd half_below_double
      math_round_half
    by blast
qed

theorem rgb2hsv_gray_witness:
  "(0::rat) \<le> 65 \<and> (65::rat) \<le> 255 \<and> (65::rat) = of_int 65
   \<and> rgb2hsv (Fin 65) (Fin 65) (Fin 65) = [Fin 0, Fin 0, Fin (of_int 65)]
   \<and> (0::rat) \<le> 1 / 4 \<and> (1 / 4 :: rat) \<le> 255
   \<and> \<lfloor>1 / 4 + 1 / 2 - pow2 (- 45) :: rat\<rfloor> = \<lfloor>1 / 4 + 1 / 2 + pow2 (- 45)\<rfloor>
   \<and> rgb2hsv (Fin (1 / 4)) (Fin (1 / 4)) (Fin (1 / 4)) =
        [Fin 0, Fin 0, math_round (js_mul (js_div (Fin (1 / 4)) (Fin 255)) (Fin 255))]
   \<and> js_mul (js_div (Fin (1 / 4)) (Fin 255)) (Fin 255) = Fin (1 / 4)
   \<and> rgb2hsv (Fin (1 / 4)) (Fin (1 / 4)) (Fin (1 / 4)) = [Fin 0, Fin 0, math_round (Fin (1 / 4))]
   \<and> math_round (Fin (1 / 4)) = Fin 0
   \<and> (0::rat) \<le> 9007199254740991 / 18014398509481984
   \<and> (9007199254740991 / 18014398509481984 :: rat) \<le> 255
   \<and> rgb2hsv (Fin (9007199254740991 / 18014398509481984))
        (Fin (9007199254740991 / 18014398509481984))
        (Fin (9007199254740991 / 18014398509481984)) =
        [Fin 0, Fin 0,
         math_round (js_mul (js_div (Fin (9007199254740991 / 18014398509481984)) (Fin 255)) (Fin 255))]
   \<and> js_mul (js_div (Fin (9007199254740991 / 18014398509481984)) (Fin 255)) (Fin 255) = Fin (1 / 2)
   \<and> math_round (Fin (1 / 2)) = Fin 1"
proof -
  note d = rgb2hsv_gray [THEN conjunct1]
  note st = rgb2hsv_gray [THEN conjunct2, THEN conjunct2, THEN conjunct1, rule_format]
  note it = rgb2hsv_gray [THEN conjunct2, THEN conjunct2, THEN conjunct2, rule_format]
  have i: "(65::rat) = of_int 65" by simp
  have iv: "rgb2hsv (Fin 65) (Fin 65) (Fin 65) = [Fin 0, Fin 0, Fin (of_int 65)]"
    by (rule it) simp_all
  have qd: "rgb2hsv (Fin (1 / 4)) (Fin (1 / 4)) (Fin (1 / 4)) =
        [Fin 0, Fin 0, math_round (js_mul (js_div (Fin (1 / 4)) (Fin 255)) (Fin 255))]"
    by (rule d) simp_all
  have qr: "rgb2hsv (Fin (1 / 4)) (Fin (1 / 4)) (Fin (1 / 4)) = [Fin 0, Fin 0, math_round (Fin (1 / 4))]"
    by (rule st [OF _ _ quarter_stable]) simp_all
  have hd: "rgb2hsv (Fin (9007199254740991 / 18014398509481984))
        (Fin (9007199254740991 / 18014398509481984))
        (Fin (9007199254740991 / 18014398509481984)) =
        [Fin 0, Fin 0,
         math_round (js_mul (js_div (Fin (9007199254740991 / 18014398509481984)) (Fin 255)) (Fin 255))]"
    by (rule d) simp_all
  have r: "(0::rat) \<le> 65 \<and> (65::rat) \<le> 255
   \<and> (0::rat) \<le> 1 / 4 \<and> (1 / 4 :: rat) \<le> 255
   \<and> (0::rat) \<le> 9007199254740991 / 18014398509481984
   \<and> (9007199254740991 / 18014398509481984 :: rat) \<le> 255" by simp
  show ?thesis
    using r i iv quarter_stable qd quarter_double qr math_round_quarter hd half_below_double
      math_round_half
    by blast
qed

lemma half_below_value:
  "\<lfloor>round_mag (round_mag (9007199254740991 / 18014398509481984 / 255) * 255) + 1 / 2\<rfloor> = 1"
  by (simp only: half_below_normalized half_below_scaled) simp

lemma half_below_value_third:
  "0 \<le> r \<Longrightarrow> r \<le> 255 \<Longrightarrow> 0 \<le> g \<Longrightarrow> g \<le> 255 \<Longrightarrow> 0 \<le> b \<Longrightarrow> b \<le> 255 \<Longrightarrow>
   max (max r g) b = 9007199254740991 / 18014398509481984 \<Longrightarrow>
   rgb2hsv (Fin r) (Fin g) (Fin b) ! 2 = Fin 1"
  by (simp only: in_range_value half_below_value) simp

text \<open>
  The largest binary64 value below \<open>0.5\<close> rounds to \<open>0\<close>, but divided by 255 and
  multiplied by 255 again it becomes \<open>0.5\<close>, which \<open>Math.round\<close> takes to \<open>1\<close>.
\<close>

theorem rgb2hsv_value_counterexample:
  "(0::rat) \<le> 9007199254740991 / 18014398509481984
   \<and> (9007199254740991 / 18014398509481984 :: rat) \<le> 255
   \<and> rgb2hsv (Fin 0) (Fin 0) (Fin (9007199254740991 / 18014398509481984)) ! 2 = Fin 1
   \<and> math_round (Fin (max (max 0 0) (9007199254740991 / 18014398509481984))) = Fin 0"
proof -
  have "rgb2hsv (Fin 0) (Fin 0) (Fin (9007199254740991 / 18014398509481984)) ! 2 = Fin 1"
    by (rule half_below_value_third) simp_all
  moreover have "\<lfloor>9007199254740991 / 18014398509481984 + 1 / 2 :: rat\<rfloor> = 0"
    by (rule floor_unique) simp_all
  ultimately show ?thesis by simp
qed

text \<open>The same value in all three channels: the result is \<open>[0, 0, 1]\<close>, not \<open>[0, 0, 0]\<close>.\<close>

theorem rgb2hsv_gray_counterexample:
  "(0::rat) \<le> 9007199254740991 / 18014398509481984
   \<and> (9007199254740991 / 18014398509481984 :: rat) \<le> 255
   \<and> rgb2hsv (Fin (9007199254740991 / 18014398509481984))
        (Fin (9007199254740991 / 18014398509481984))
        (Fin (9007199254740991 / 18014398509481984)) = [Fin 0, Fin 0, Fin 1]
   \<and> math_round (Fin (9007199254740991 / 18014398509481984)) = Fin 0"
proof -
  let ?k = "9007199254740991 / 18014398509481984 :: rat"
  have k: "0 \<le> ?k" "?k \<le> 255" by simp_all
  note p = in_range_parts [OF k k k]
  have "js_eq (delta (Fin ?k) (Fin ?k) (Fin ?k)) (Fin 0)" by (simp add: p(6))
  then have "rgb2hsv (Fin ?k) (Fin ?k) (Fin ?k) =
      [scaled (Fin 0), scaled (Fin 0), scaled (max_c (Fin ?k) (Fin ?k) (Fin ?k))]"
    by (rule rgb2hsv_achromatic)
  moreover have "scaled (Fin 0) = Fin 0" using scaled_Fin [of 0] by (simp add: floor_half)
  moreover have "rgb2hsv (Fin ?k) (Fin ?k) (Fin ?k) ! 2 = Fin 1"
    by (rule half_below_value_third) simp_all
  then have "scaled (max_c (Fin ?k) (Fin ?k) (Fin ?k)) = Fin 1"
    by (simp only: rgb2hsv_third)
  moreover have "\<lfloor>?k + 1 / 2\<rfloor> = 0"
    by (rule floor_unique) simp_all
  ultimately show ?thesis by simp
qed

section \<open>Construction\<close>

lemma color_components_length: "length (color_components p args) = 4"
  by (simp add: color_components_def Let_def)

text \<open>
  C8.  The alpha component is the supplied alpha argument exactly when that argument is a
  number (the fourth argument when three or more are given, the second otherwise); in
  every other case it is element 3 of the maxima of the active mode.  The four components
  are what \<open>getNormalizedColor\<close> receives.
\<close>

theorem color_alpha_default:
  "arr_get (color_components p args) 3 =
     (let supplied = arr_get args (if 3 \<le> length args then 3 else 1)
      in if is_number supplied then supplied
         else arr_get (if colorMode p = RGB then maxRGB p else maxHSB p) 3)
   \<and> rgba (color p args) = getNormalizedColor p (color_components p args)"
  by (simp add: color_components_def color_def arr_get_def Let_def)

text \<open>
  C7.  With fewer than three arguments: in RGB mode the first argument is used for all of
  \<open>r\<close>, \<open>g\<close> and \<open>b\<close>; in the other mode it is used for the hue and the brightness
  slot and the saturation slot is \<open>0\<close>.  In both modes a numeric second argument is the
  alpha component.
\<close>

theorem color_few_values:
  assumes "length args < 3"
  shows "(colorMode p = RGB \<longrightarrow>
            color_components p args =
              [arr_get args 0, arr_get args 0, arr_get args 0, arr_get (color_components p args) 3]
            \<and> hsba (color p args) = None)
       \<and> (colorMode p \<noteq> RGB \<longrightarrow>
            color_components p args =
              [arr_get args 0, Num (Fin 0), arr_get args 0, arr_get (color_components p args) 3]
            \<and> hsba (color p args) = Some (color_components p args))
       \<and> (is_number (arr_get args 1) \<longrightarrow> arr_get (color_components p args) 3 = arr_get args 1)
       \<and> rgba (color p args) = getNormalizedColor p (color_components p args)"
  using assms by (simp add: color_components_def color_def arr_get_def Let_def)

theorem color_few_values_witness:
  "length [Num (Fin 65), Num (Fin 102)] < 3 \<and> colorMode sketch_rgb = RGB
   \<and> colorMode sketch_hsb \<noteq> RGB \<and> is_number (arr_get [Num (Fin 65), Num (Fin 102)] 1)
   \<and> color_components sketch_rgb [Num (Fin 65), Num (Fin 102)] =
        [Num (Fin 65), Num (Fin 65), Num (Fin 65), Num (Fin 102)]
   \<and> hsba (color sketch_rgb [Num (Fin 65), Num (Fin 102)]) = None
   \<and> color_components sketch_hsb [Num (Fin 65), Num (Fin 102)] =
        [Num (Fin 65), Num (Fin 0), Num (Fin 65), Num (Fin 102)]
   \<and> hsba (color sketch_hsb [Num (Fin 65), Num (Fin 102)]) =
        Some [Num (Fin 65), Num (Fin 0), Num (Fin 65), Num (Fin 102)]"
  using color_few_values [of "[Num (Fin 65), Num (Fin 102)]" sketch_rgb]
    color_few_values [of "[Num (Fin 65), Num (Fin 102)]" sketch_hsb]
  by (simp add: sketch_rgb_def sketch_hsb_def arr_get_def color_components_def color_def)

section \<open>Accessors and the cached \<open>hsba\<close>\<close>

text \<open>Worked values used in the examples of this section.\<close>

lemma color_rgb_example:
  "color sketch_rgb [Num (Fin 255), Num (Fin 204), Num (Fin 0)] =
     Color True None [Fin 255, Fin 204, Fin 0, Fin 255] []"
  by (simp add: color_def color_components_def sketch_rgb_def arr_get_def Let_def)

lemma color_hsb_example:
  "color sketch_hsb [Num (Fin 50), Num (Fin 55), Num (Fin 100)] =
     Color True (Some [Num (Fin 50), Num (Fin 55), Num (Fin 100), Num (Fin 255)])
       [Fin 50, Fin 55, Fin 100, Fin 255] []"
  by (simp add: color_def color_components_def sketch_hsb_def sketch_rgb_def arr_get_def Let_def)

lemma derived_hsba_example:
  "derived_hsba (Color True None [Fin 255, Fin 204, Fin 0, Fin 255] []) =
     [Num (Fin 34), Num (Fin 255), Num (Fin 255), Num (Fin 255)]"
  by (simp add: derived_hsba_def chan_def num_get_def rgb2hsv_example)

lemma fill_hsba_frame:
  "isColor (fst (fill_hsba c)) = isColor c"
  "rgba (fst (fill_hsba c)) = rgba c"
  "colorString (fst (fill_hsba c)) = colorString c"
  by (simp_all add: fill_hsba_def split: option.splits)

lemma fill_hsba_present: "hsba c = Some h \<Longrightarrow> fill_hsba c = (c, 0)"
  by (simp add: fill_hsba_def)

lemma fill_hsba_absent:
  "hsba c = None \<Longrightarrow> hsba (fst (fill_hsba c)) = Some (derived_hsba c) \<and> snd (fill_hsba c) = 1"
  by (simp add: fill_hsba_def)

lemma fill_hsba_filled: "\<exists>h. hsba (fst (fill_hsba c)) = Some h"
  by (cases "hsba c") (simp_all add: fill_hsba_def)

lemma rgba_accessors_color:
  assumes "isColor c"
  shows "red p (Obj c) = Inr (num_get (rgba c) 0, Obj c, 0)"
    and "green p (Obj c) = Inr (num_get (rgba c) 1, Obj c, 0)"
    and "blue p (Obj c) = Inr (num_get (rgba c) 2, Obj c, 0)"
    and "alpha p (Obj c) = Inr (num_get (rgba c) 3, Obj c, 0)"
  using assms by (simp_all add: red_def green_def blue_def alpha_def)

lemma hsba_accessors_color:
  assumes "isColor c"
  shows "hue p (Obj c) =
      Inr (arr_get (the (hsba (fst (fill_hsba c)))) 0, Obj (fst (fill_hsba c)), snd (fill_hsba c))"
    and "saturation p (Obj c) =
      Inr (arr_get (the (hsba (fst (fill_hsba c)))) 1, Obj (fst (fill_hsba c)), snd (fill_hsba c))"
    and "brightness p (Obj c) =
      Inr (arr_get (the (hsba (fst (fill_hsba c)))) 2, Obj (fst (fill_hsba c)), snd (fill_hsba c))"
  using assms fill_hsba_filled [of c]
  by (auto simp add: hue_def saturation_def brightness_def split: prod.splits option.splits)

text \<open>
  C10.  On a color object, \<open>red\<close>, \<open>green\<close>, \<open>blue\<close> and \<open>alpha\<close> return the
  element of \<open>rgba\<close> and leave the object as it is; \<open>hue\<close>, \<open>saturation\<close> and
  \<open>brightness\<close> leave \<open>rgba\<close>, \<open>colorString\<close> and \<open>isColor\<close> as they are, and leave
  the whole object as it is when \<open>hsba\<close> was present on entry.
\<close>

theorem accessors_frame:
  assumes "isColor c"
  shows "red p (Obj c) = Inr (num_get (rgba c) 0, Obj c, 0)
       \<and> green p (Obj c) = Inr (num_get (rgba c) 1, Obj c, 0)
       \<and> blue p (Obj c) = Inr (num_get (rgba c) 2, Obj c, 0)
       \<and> alpha p (Obj c) = Inr (num_get (rgba c) 3, Obj c, 0)
       \<and> (\<forall>f \<in> {hue, saturation, brightness}.
            \<exists>v c' n. f p (Obj c) = Inr (v, Obj c', n)
              \<and> rgba c' = rgba c \<and> colorString c' = colorString c \<and> isColor c' = isColor c
              \<and> (hsba c \<noteq> None \<longrightarrow> c' = c))"
  using assms
  by (auto simp add: rgba_accessors_color hsba_accessors_color fill_hsba_frame fill_hsba_present)

lemma accessor_fun_color:
  "isColor c \<Longrightarrow>
   \<exists>v. accessor_fun a p (Obj c) =
     Inr (v, Obj (if is_hsb a then fst (fill_hsba c) else c),
          if is_hsb a then snd (fill_hsba c) else 0)"
  by (cases a)
    (simp_all add: rgba_accessors_color hsba_accessors_color)

lemma fill_hsba_twice: "fill_hsba (fst (fill_hsba c)) = (fst (fill_hsba c), 0)"
  using fill_hsba_filled [of c] by (auto simp: fill_hsba_present)

lemma run_accessors_color:
  "isColor c \<Longrightarrow>
   run_accessors p accs (Obj c) k =
     Inr (Obj (if \<exists>a \<in> set accs. is_hsb a then fst (fill_hsba c) else c),
          k + (if \<exists>a \<in> set accs. is_hsb a then snd (fill_hsba c) else 0))"
proof (induction accs arbitrary: c k)
  case Nil
  then show ?case by simp
next
  case (Cons a accs)
  obtain v where step: "accessor_fun a p (Obj c) =
     Inr (v, Obj (if is_hsb a then fst (fill_hsba c) else c),
          if is_hsb a then snd (fill_hsba c) else 0)"
    using accessor_fun_color [OF Cons.prems] by blast
  show ?case
  proof (cases "is_hsb a")
    case True
    have col: "isColor (fst (fill_hsba c))"
      using Cons.prems by (simp add: fill_hsba_frame)
    show ?thesis
      using True step Cons.IH [OF col] by (simp add: fill_hsba_twice)
  next
    case False
    show ?thesis
      using False step Cons.IH [OF Cons.prems] by simp
  qed
qed

text \<open>
  C4.  Over any sequence of accessor calls on one color object \<open>rgb2hsv\<close> is called at
  most once: not at all when \<open>hsba\<close> was present at the start or no accessor of the
  sequence reads \<open>hsba\<close>, and once otherwise, the first such call storing the derived
  tuple that every later call reads.
\<close>

theorem rgb2hsv_called_at_most_once:
  assumes "isColor c"
  shows "\<exists>c' n. run_accessors p accs (Obj c) 0 = Inr (Obj c', n)
          \<and> n \<le> 1
          \<and> (hsba c \<noteq> None \<longrightarrow> n = 0 \<and> c' = c)
          \<and> (hsba c = None \<and> (\<exists>a \<in> set accs. is_hsb a) \<longrightarrow>
                n = 1 \<and> hsba c' = Some (derived_hsba c))
          \<and> (\<not> (\<exists>a \<in> set accs. is_hsb a) \<longrightarrow> n = 0 \<and> c' = c)"
  using run_accessors_color [OF assms, of p accs 0]
  by (cases "hsba c") (auto simp add: fill_hsba_def)


lemma math_round_not_half: "math_round x \<noteq> Fin (1 / 2)"
proof (cases x)
  case (Fin q)
  have "rat_of_int n \<noteq> 1 / 2" for n
  proof
    assume "rat_of_int n = 1 / 2"
    then have "rat_of_int (2 * n) = rat_of_int 1" by simp
    then have "2 * n = 1" by (simp only: of_int_eq_iff)
    then show False by presburger
  qed
  with Fin show ?thesis by simp
qed simp_all

lemma if_rounded:
  "\<exists>h s v. (if c then [math_round a1, math_round a2, math_round a3]
             else [math_round b1, math_round b2, math_round b3]) =
            [math_round h, math_round s, math_round v]"
  by (cases c) auto

lemma rgb2hsv_rounded:
  "\<exists>h s v. rgb2hsv r g b = [math_round h, math_round s, math_round v]"
  unfolding rgb2hsv_def Let_def by (rule if_rounded)

lemma derived_hsba_hue_not_half: "arr_get (derived_hsba c) 0 \<noteq> Num (Fin (1 / 2))"
proof -
  obtain h s v where "rgb2hsv (chan (rgba c) 0) (chan (rgba c) 1) (chan (rgba c) 2) =
      [math_round h, math_round s, math_round v]"
    using rgb2hsv_rounded by blast
  then show ?thesis
    by (simp add: derived_hsba_def arr_get_def math_round_not_half)
qed

lemma color_hsb_half_inconsistent:
  assumes "colorMode p \<noteq> RGB"
  shows "hsba (color p [Num (Fin (1 / 2)), Num (Fin (1 / 2)), Num (Fin (1 / 2))])
           \<noteq> Some (derived_hsba (color p [Num (Fin (1 / 2)), Num (Fin (1 / 2)), Num (Fin (1 / 2))]))"
proof
  let ?c = "color p [Num (Fin (1 / 2)), Num (Fin (1 / 2)), Num (Fin (1 / 2))]"
  assume "hsba ?c = Some (derived_hsba ?c)"
  moreover have "hsba ?c = Some (color_components p [Num (Fin (1 / 2)), Num (Fin (1 / 2)), Num (Fin (1 / 2))])"
    using assms by (simp add: color_def Let_def)
  ultimately have "arr_get (derived_hsba ?c) 0 =
      arr_get (color_components p [Num (Fin (1 / 2)), Num (Fin (1 / 2)), Num (Fin (1 / 2))]) 0"
    by simp
  also have "\<dots> = Num (Fin (1 / 2))"
    by (simp add: color_components_def arr_get_def Let_def)
  finally show False using derived_hsba_hue_not_half by blast
qed

text \<open>
  In the other mode the stored tuple need not be the derived one: built from
  \<open>0.5, 0.5, 0.5\<close> the color has hue \<open>0.5\<close>, which \<open>rgb2hsv\<close> never returns.
\<close>

theorem hsba_verbatim_counterexample:
  "hsba (color sketch_hsb [Num (Fin (1 / 2)), Num (Fin (1 / 2)), Num (Fin (1 / 2))]) =
     Some [Num (Fin (1 / 2)), Num (Fin (1 / 2)), Num (Fin (1 / 2)), Num (Fin 255)]
   \<and> arr_get (derived_hsba (color sketch_hsb [Num (Fin (1 / 2)), Num (Fin (1 / 2)), Num (Fin (1 / 2))])) 0
       \<noteq> Num (Fin (1 / 2))"
  using derived_hsba_hue_not_half
  by (simp add: color_def color_components_def sketch_hsb_def sketch_rgb_def arr_get_def Let_def)

lemma derived_hsba_cong: "rgba c' = rgba c \<Longrightarrow> derived_hsba c' = derived_hsba c"
  by (simp add: derived_hsba_def)

text \<open>
  C1, as the code has it.  A color built in RGB mode has no \<open>hsba\<close>; after any sequence
  of accessor calls its \<open>hsba\<close> is still absent or is the tuple derived from \<open>rgba\<close> by
  \<open>rgb2hsv\<close> with \<open>rgba[3]\<close> appended.  A color built in the other mode carries the
  components it was built from, and no accessor replaces them or calls \<open>rgb2hsv\<close>.
\<close>

theorem hsba_derived_or_verbatim:
  "(colorMode p = RGB \<longrightarrow>
      hsba (color p args) = None
      \<and> (\<exists>c' n. run_accessors p accs (Obj (color p args)) 0 = Inr (Obj c', n)
            \<and> (hsba c' = None \<or> hsba c' = Some (derived_hsba c'))))
   \<and> (colorMode p \<noteq> RGB \<longrightarrow>
      hsba (color p args) = Some (color_components p args)
      \<and> (\<exists>c'. run_accessors p accs (Obj (color p args)) 0 = Inr (Obj c', 0)
            \<and> hsba c' = Some (color_components p args)))"
proof -
  have col: "isColor (color p args)" by (simp add: color_def Let_def)
  note run = run_accessors_color [OF col, of p accs 0]
  have rgb: "colorMode p = RGB \<Longrightarrow> hsba (color p args) = None"
    by (simp add: color_def Let_def)
  have hsb: "colorMode p \<noteq> RGB \<Longrightarrow> hsba (color p args) = Some (color_components p args)"
    by (simp add: color_def Let_def)
  show ?thesis
  proof (intro conjI impI)
    assume "colorMode p = RGB"
    then show "hsba (color p args) = None" by (rule rgb)
  next
    assume m: "colorMode p = RGB"
    show "\<exists>c' n. run_accessors p accs (Obj (color p args)) 0 = Inr (Obj c', n)
            \<and> (hsba c' = None \<or> hsba c' = Some (derived_hsba c'))"
      using run rgb [OF m] fill_hsba_absent [of "color p args"]
        derived_hsba_cong [of "fst (fill_hsba (color p args))" "color p args"]
      by (auto simp add: fill_hsba_frame)
  next
    assume "colorMode p \<noteq> RGB"
    then show "hsba (color p args) = Some (color_components p args)" by (rule hsb)
  next
    assume m: "colorMode p \<noteq> RGB"
    show "\<exists>c'. run_accessors p accs (Obj (color p args)) 0 = Inr (Obj c', 0)
            \<and> hsba c' = Some (color_components p args)"
      using run hsb [OF m] fill_hsba_present [OF hsb [OF m]] by auto
  qed
qed

theorem accessors_frame_witness:
  "isColor (Color True None [Fin 255, Fin 204, Fin 0, Fin 255] [])
   \<and> alpha sketch_rgb (Obj (Color True None [Fin 255, Fin 204, Fin 0, Fin 255] [])) =
       Inr (Num (Fin 255), Obj (Color True None [Fin 255, Fin 204, Fin 0, Fin 255] []), 0)
   \<and> hue sketch_rgb (Obj (Color True None [Fin 255, Fin 204, Fin 0, Fin 255] [])) =
       Inr (Num (Fin 34),
            Obj (Color True (Some [Num (Fin 34), Num (Fin 255), Num (Fin 255), Num (Fin 255)])
                   [Fin 255, Fin 204, Fin 0, Fin 255] []), 1)
   \<and> saturation sketch_hsb
        (Obj (Color True (Some [Num (Fin 50), Num (Fin 55), Num (Fin 100), Num (Fin 255)])
               [Fin 50, Fin 55, Fin 100, Fin 255] [])) =
       Inr (Num (Fin 55),
            Obj (Color True (Some [Num (Fin 50), Num (Fin 55), Num (Fin 100), Num (Fin 255)])
                   [Fin 50, Fin 55, Fin 100, Fin 255] []), 0)"
  using accessors_frame [of "Color True None [Fin 255, Fin 204, Fin 0, Fin 255] []" sketch_rgb]
    accessors_frame [of "Color True (Some [Num (Fin 50), Num (Fin 55), Num (Fin 100), Num (Fin 255)])
               [Fin 50, Fin 55, Fin 100, Fin 255] []" sketch_hsb]
  by (simp add: alpha_def hue_def saturation_def fill_hsba_def
      derived_hsba_example num_get_def arr_get_def)

theorem rgb2hsv_called_at_most_once_witness:
  "isColor (Color True None [Fin 255, Fin 204, Fin 0, Fin 255] [])
   \<and> run_accessors sketch_rgb [GetHue, GetRed, GetSaturation, GetBrightness]
        (Obj (Color True None [Fin 255, Fin 204, Fin 0, Fin 255] [])) 0 =
       Inr (Obj (Color True (Some [Num (Fin 34), Num (Fin 255), Num (Fin 255), Num (Fin 255)])
                   [Fin 255, Fin 204, Fin 0, Fin 255] []), 1)
   \<and> run_accessors sketch_hsb [GetHue, GetSaturation, GetBrightness]
        (Obj (Color True (Some [Num (Fin 50), Num (Fin 55), Num (Fin 100), Num (Fin 255)])
               [Fin 50, Fin 55, Fin 100, Fin 255] [])) 0 =
       Inr (Obj (Color True (Some [Num (Fin 50), Num (Fin 55), Num (Fin 100), Num (Fin 255)])
               [Fin 50, Fin 55, Fin 100, Fin 255] []), 0)"
  using rgb2hsv_called_at_most_once [of "Color True None [Fin 255, Fin 204, Fin 0, Fin 255] []"
      sketch_rgb "[GetHue, GetRed, GetSaturation, GetBrightness]"]
    rgb2hsv_called_at_most_once [of
      "Color True (Some [Num (Fin 50), Num (Fin 55), Num (Fin 100), Num (Fin 255)])
               [Fin 50, Fin 55, Fin 100, Fin 255] []"
      sketch_hsb "[GetHue, GetSaturation, GetBrightness]"]
  by (simp add: red_def hue_def saturation_def brightness_def
      fill_hsba_def derived_hsba_example)

theorem hsba_derived_or_verbatim_witness:
  "colorMode sketch_rgb = RGB \<and> colorMode sketch_hsb \<noteq> RGB
   \<and> run_accessors sketch_rgb [GetBrightness]
        (Obj (color sketch_rgb [Num (Fin 255), Num (Fin 204), Num (Fin 0)])) 0 =
       Inr (Obj (Color True (Some [Num (Fin 34), Num (Fin 255), Num (Fin 255), Num (Fin 255)])
                   [Fin 255, Fin 204, Fin 0, Fin 255] []), 1)
   \<and> derived_hsba (Color True (Some [Num (Fin 34), Num (Fin 255), Num (Fin 255), Num (Fin 255)])
                   [Fin 255, Fin 204, Fin 0, Fin 255] []) =
       [Num (Fin 34), Num (Fin 255), Num (Fin 255), Num (Fin 255)]
   \<and> run_accessors sketch_hsb [GetBrightness]
        (Obj (color sketch_hsb [Num (Fin 50), Num (Fin 55), Num (Fin 100)])) 0 =
       Inr (Obj (Color True (Some [Num (Fin 50), Num (Fin 55), Num (Fin 100), Num (Fin 255)])
               [Fin 50, Fin 55, Fin 100, Fin 255] []), 0)"
proof -
  have m: "colorMode sketch_rgb = RGB" "colorMode sketch_hsb \<noteq> RGB"
    by (simp_all add: sketch_rgb_def sketch_hsb_def)
  have r1: "run_accessors sketch_rgb [GetBrightness]
        (Obj (color sketch_rgb [Num (Fin 255), Num (Fin 204), Num (Fin 0)])) 0 =
       Inr (Obj (Color True (Some [Num (Fin 34), Num (Fin 255), Num (Fin 255), Num (Fin 255)])
                   [Fin 255, Fin 204, Fin 0, Fin 255] []), 1)"
    by (simp add: color_rgb_example brightness_def fill_hsba_def
        derived_hsba_example)
  have r2: "derived_hsba (Color True (Some [Num (Fin 34), Num (Fin 255), Num (Fin 255), Num (Fin 255)])
                   [Fin 255, Fin 204, Fin 0, Fin 255] []) =
       [Num (Fin 34), Num (Fin 255), Num (Fin 255), Num (Fin 255)]"
    using derived_hsba_cong [of "Color True (Some [Num (Fin 34), Num (Fin 255), Num (Fin 255), Num (Fin 255)])
                   [Fin 255, Fin 204, Fin 0, Fin 255] []" "Color True None [Fin 255, Fin 204, Fin 0, Fin 255] []"]
    by (simp add: derived_hsba_example)
  have r3: "run_accessors sketch_hsb [GetBrightness]
        (Obj (color sketch_hsb [Num (Fin 50), Num (Fin 55), Num (Fin 100)])) 0 =
       Inr (Obj (Color True (Some [Num (Fin 50), Num (Fin 55), Num (Fin 100), Num (Fin 255)])
               [Fin 50, Fin 55, Fin 100, Fin 255] []), 0)"
    by (simp add: color_hsb_example brightness_def fill_hsba_def)
  show ?thesis
    using hsba_derived_or_verbatim [of sketch_rgb "[Num (Fin 255), Num (Fin 204), Num (Fin 0)]"
      "[GetBrightness]"]
    hsba_derived_or_verbatim [of sketch_hsb "[Num (Fin 50), Num (Fin 55), Num (Fin 100)]"
      "[GetBrightness]"]
    by (simp only: m r1 r2 r3) simp
qed

section \<open>Interpolation\<close>

declare lerp_loop.simps [simp del]

lemma lerp_loop_array:
  "i \<le> length xs \<Longrightarrow>
   lerp_loop lerp xs (Arr ys) amt i acc =
     Inr (acc @ map (\<lambda>j. lerp (xs ! j) (arr_get ys j) amt) [i..<length xs])"
proof (induction lerp xs "Arr ys" amt i acc rule: lerp_loop.induct)
  case (1 lerp c1 amt i c)
  show ?case
  proof (cases "i < length c1")
    case True
    then have "lerp_loop lerp c1 (Arr ys) amt i c =
        lerp_loop lerp c1 (Arr ys) amt (Suc i) (c @ [lerp (c1 ! i) (arr_get ys i) amt])"
      by (subst lerp_loop.simps) simp
    also have "\<dots> = Inr ((c @ [lerp (c1 ! i) (arr_get ys i) amt]) @
        map (\<lambda>j. lerp (c1 ! j) (arr_get ys j) amt) [Suc i..<length c1])"
      using True by (intro "1.hyps"[of "arr_get ys i"]) auto
    finally show ?thesis using True by (simp add: upt_conv_Cons)
  next
    case False
    with "1.prems" have "i = length c1" by simp
    then show ?thesis by (subst lerp_loop.simps) simp
  qed
qed

text \<open>
  C9.  For every \<open>amt\<close>, whatever its value, \<open>lerpColor\<close> on two arrays returns a new
  array as long as the first whose \<open>i\<close>-th element is \<open>lerp(c1[i], c2[i], amt)\<close>, and on a
  first argument that is not an object it returns \<open>lerp(c1, c2, amt)\<close>; \<open>amt\<close> reaches
  \<open>lerp\<close> as it was given.
\<close>

theorem lerpColor_applies_lerp:
  "lerpColor lerp (Arr xs) (Arr ys) amt =
     Inr (Arr (map (\<lambda>i. lerp (xs ! i) (arr_get ys i) amt) [0..<length xs]))
   \<and> (\<not> is_object c1 \<longrightarrow> lerpColor lerp c1 c2 amt = Inr (lerp c1 c2 amt))"
  by (simp add: lerpColor_def lerp_loop_array)

theorem lerpColor_applies_lerp_witness:
  "lerpColor lerp_stub (Arr [Num (Fin 204), Num (Fin 102), Num (Fin 0)])
       (Arr [Num (Fin 0), Num (Fin 102), Num (Fin 153)]) (Num (Fin 7)) =
     Inr (Arr [Num (Fin 7), Num (Fin 7), Num (Fin 7)])
   \<and> \<not> is_object (Num (Fin 0))
   \<and> lerpColor lerp_stub (Num (Fin 0)) (Num (Fin 255)) (Num (Fin (- 3))) = Inr (Num (Fin (- 3)))"
  using lerpColor_applies_lerp [of lerp_stub "[Num (Fin 204), Num (Fin 102), Num (Fin 0)]"
      "[Num (Fin 0), Num (Fin 102), Num (Fin 153)]" "Num (Fin 7)"]
    lerpColor_applies_lerp [of lerp_stub "[]" "[]" "Num (Fin (- 3))" "Num (Fin 0)" "Num (Fin 255)"]
  by (simp add: lerp_stub_def upt_rec)

end
